theory Spec2Isabelle
  imports Complex_Main "HOL-Library.Word" "HOL-Library.Log_Nat"
begin

section \<open>The thermal data node: data model\<close>

text \<open>
  A shallow embedding of \<^verbatim>\<open>src/thermal_network/src/thermal_data.cpp\<close>: the class
  \<^verbatim>\<open>ThermalData\<close>, its receive loop \<^verbatim>\<open>temp_data\<close> and the frame conversion
  \<^verbatim>\<open>process_data\<close>.

  Integers are modelled with their widths: \<^verbatim>\<open>uint8_t\<close> is \<^typ>\<open>8 word\<close>,
  \<^verbatim>\<open>uint16_t\<close> is \<^typ>\<open>16 word\<close>, and the \<^verbatim>\<open>int\<close> expressions of the source
  (loop counters, offsets, rows and columns, all far below \<open>2 ^ 31\<close>) are \<^typ>\<open>int\<close> or,
  for the loop counters that only count up from 0, \<^typ>\<open>nat\<close>.

  The source computes with \<^verbatim>\<open>float\<close> in three places: the calibration fields
  \<^verbatim>\<open>diff_\<close> and \<^verbatim>\<open>scale_\<close>, the scaled intensity and the temperature. The
  arithmetic of the floating-point unit is not fixed here: it is a parameter of the model,
  a record of the operations the source applies, over an arbitrary carrier \<open>'f\<close>. A
  theorem below stated for a record \<open>fpu\<close> holds for each such record; the theorems about
  rounded values are stated for the instance \<open>ieee_fpu\<close> of IEEE 754 arithmetic.
\<close>

record 'f fpu =
  f_of_int :: "int \<Rightarrow> 'f"  \<comment> \<open>conversion of an \<^verbatim>\<open>int\<close> to \<^verbatim>\<open>float\<close>\<close>
  f_div :: "'f \<Rightarrow> 'f \<Rightarrow> 'f"  \<comment> \<open>\<^verbatim>\<open>a / b\<close> on \<^verbatim>\<open>float\<close>\<close>
  f_mul :: "'f \<Rightarrow> 'f \<Rightarrow> 'f"  \<comment> \<open>\<^verbatim>\<open>a * b\<close> on \<^verbatim>\<open>float\<close>\<close>
  f_to_u16 :: "'f \<Rightarrow> 16 word"  \<comment> \<open>conversion of a \<^verbatim>\<open>float\<close> to \<^verbatim>\<open>uint16_t\<close>\<close>
  f_temp :: "16 word \<Rightarrow> 'f"
    \<comment> \<open>\<^verbatim>\<open>(v / 100.0) - 273.0\<close>, computed in \<^verbatim>\<open>double\<close> and narrowed to \<^verbatim>\<open>float\<close>\<close>

text \<open>
  An instance with exact rational arithmetic, no rounding, and truncation towards zero in
  the conversion to \<^verbatim>\<open>uint16_t\<close>. It serves to run the model on concrete frames
  where no result of a floating-point operation is looked at.
\<close>

definition exact_fpu :: "rat fpu" where
  "exact_fpu =
     \<lparr> f_of_int = of_int,
       f_div = (\<lambda>a b. a / b),
       f_mul = (\<lambda>a b. a * b),
       f_to_u16 = (\<lambda>x. word_of_int (if 0 \<le> x then \<lfloor>x\<rfloor> else \<lceil>x\<rceil>)),
       f_temp = (\<lambda>v. of_int (uint v) / 100 - 273) \<rparr>"

subsection \<open>IEEE 754 arithmetic\<close>

text \<open>
  The instance for a platform whose \<^verbatim>\<open>float\<close> is binary32 and whose \<^verbatim>\<open>double\<close> is
  binary64, with rounding to nearest, ties to even, and each operation rounded to the
  format of its type. A finite value is the rational number it stands for. Zero has no
  sign here: where IEEE 754 yields \<open>-0\<close> the value is 0, and a non-zero value divided by
  zero is the infinity with the sign of the dividend.

  \<open>log2_floor q\<close> is the exponent \<open>e\<close> with \<open>2 ^ e \<le> q < 2 ^ (e + 1)\<close>, for \<open>q > 0\<close>.
  \<open>round_to p emin q\<close> rounds \<open>q\<close> to \<open>p\<close> significant bits, or to a multiple of
  \<open>2 ^ (emin - p + 1)\<close> in the subnormal range; \<open>to_format\<close> adds the overflow to
  infinity.
\<close>

datatype ieee = Finite rat | PlusInf | MinusInf | NaN

definition log2_floor :: "rat \<Rightarrow> int" where
  "log2_floor q =
     (let (a, b) = quotient_of q; e = bitlen a - bitlen b
      in if 2 powi e \<le> q then e else e - 1)"

definition round_half_even :: "rat \<Rightarrow> int" where
  "round_half_even x =
     (let f = \<lfloor>x\<rfloor>; r = x - of_int f
      in if r < 1 / 2 then f else if 1 / 2 < r then f + 1 else if even f then f else f + 1)"

definition round_to :: "nat \<Rightarrow> int \<Rightarrow> rat \<Rightarrow> rat" where
  "round_to p emin q =
     (if q = 0 then 0
      else
        (let e = max (log2_floor \<bar>q\<bar>) emin; ulp = 2 powi (e - int p + 1)
         in of_int (round_half_even (q / ulp)) * ulp))"

definition to_format :: "nat \<Rightarrow> int \<Rightarrow> int \<Rightarrow> rat \<Rightarrow> ieee" where
  "to_format p emin emax q =
     (let r = round_to p emin q
      in if 2 powi (emax + 1) \<le> \<bar>r\<bar> then (if 0 < r then PlusInf else MinusInf) else Finite r)"

definition binary32 :: "rat \<Rightarrow> ieee" where
  "binary32 = to_format 24 (- 126) 127"

text \<open>The \<^verbatim>\<open>double\<close> values of the source stay finite, so they are kept as rationals.\<close>

definition binary64 :: "rat \<Rightarrow> rat" where
  "binary64 = round_to 53 (- 1022)"

fun is_neg :: "ieee \<Rightarrow> bool" where
  "is_neg (Finite x) = (x < 0)"
| "is_neg MinusInf = True"
| "is_neg _ = False"

definition signed_inf :: "bool \<Rightarrow> ieee" where
  "signed_inf neg = (if neg then MinusInf else PlusInf)"

fun ieee_div :: "ieee \<Rightarrow> ieee \<Rightarrow> ieee" where
  "ieee_div NaN _ = NaN"
| "ieee_div _ NaN = NaN"
| "ieee_div (Finite x) (Finite y) =
     (if y = 0 then (if x = 0 then NaN else signed_inf (x < 0)) else binary32 (x / y))"
| "ieee_div (Finite x) _ = Finite 0"
| "ieee_div a (Finite y) = signed_inf (is_neg a \<noteq> (y < 0))"
| "ieee_div _ _ = NaN"

fun ieee_mul :: "ieee \<Rightarrow> ieee \<Rightarrow> ieee" where
  "ieee_mul NaN _ = NaN"
| "ieee_mul _ NaN = NaN"
| "ieee_mul (Finite x) (Finite y) = binary32 (x * y)"
| "ieee_mul (Finite x) b = (if x = 0 then NaN else signed_inf ((x < 0) \<noteq> is_neg b))"
| "ieee_mul a (Finite y) = (if y = 0 then NaN else signed_inf (is_neg a \<noteq> (y < 0)))"
| "ieee_mul a b = signed_inf (is_neg a \<noteq> is_neg b)"

text \<open>
  The conversion to \<^verbatim>\<open>uint16_t\<close> truncates towards zero. C++ leaves it undefined when
  the truncated value is outside 0..65535; here such a value is reduced modulo 65536, and
  an infinity or a NaN gives 0. No theorem below depends on that choice.
\<close>

fun ieee_to_u16 :: "ieee \<Rightarrow> 16 word" where
  "ieee_to_u16 (Finite x) = word_of_int (if 0 \<le> x then \<lfloor>x\<rfloor> else \<lceil>x\<rceil>)"
| "ieee_to_u16 _ = 0"

text \<open>
  \<^verbatim>\<open>(valueFrameBuffer / 100.0) - 273.0\<close>: the sample is converted to \<^verbatim>\<open>double\<close>
  exactly, divided and subtracted in \<^verbatim>\<open>double\<close>, and the result is narrowed to
  \<^verbatim>\<open>float\<close>.
\<close>

definition ieee_temp :: "16 word \<Rightarrow> ieee" where
  "ieee_temp v = binary32 (binary64 (binary64 (of_int (uint v) / 100) - 273))"

definition ieee_fpu :: "ieee fpu" where
  "ieee_fpu =
     \<lparr> f_of_int = (\<lambda>n. binary32 (of_int n)),
       f_div = ieee_div,
       f_mul = ieee_mul,
       f_to_u16 = ieee_to_u16,
       f_temp = ieee_temp \<rparr>"

text \<open>The two messages the node publishes (the time stamp of the image header is left out).\<close>

record 'f thermal_msg =
  temp :: "'f list"
  height :: int
  width :: int

record image_msg =
  frame_id :: string
  img_height :: int
  img_width :: int
  encoding :: string
  is_bigendian :: bool
  step :: int
  data :: "8 word list"

text \<open>
  The member variables of \<^verbatim>\<open>ThermalData\<close>, named as in the source without the
  final underscore. The two publishers are the lists of the messages published so far,
  latest first; \<open>sock_closed\<close> records \<^verbatim>\<open>close(sockfd_)\<close>.
\<close>

record 'f thermal_data =
  autoRangeMin :: bool
  autoRangeMax :: bool
  minValue :: "16 word"
  maxValue :: "16 word"
  diff :: 'f
  scale :: 'f
  n_zero_value_drop_frame :: "16 word"
  shelf :: "8 word list list"
  temperature_data :: "'f list"
  image_data :: "8 word list"
  thermal_pub :: "'f thermal_msg list"
  img_pub :: "image_msg list"
  sock_closed :: bool

definition rangeMin :: "16 word" where
  "rangeMin = 27300"

definition rangeMax :: "16 word" where
  "rangeMax = 31500"

definition myImageWidth :: int where
  "myImageWidth = 160"

definition myImageHeight :: int where
  "myImageHeight = 120"

text \<open>
  The state after construction. The segment buffers \<^verbatim>\<open>shelf_\<close> have no initialiser in
  the source, so their first content is a parameter.
\<close>

definition initial :: "'f fpu \<Rightarrow> 8 word list list \<Rightarrow> 'f thermal_data" where
  "initial fpu buffers =
     \<lparr> autoRangeMin = False,
       autoRangeMax = False,
       minValue = rangeMin,
       maxValue = rangeMax,
       diff = f_of_int fpu (uint rangeMax - uint rangeMin),
       scale = f_div fpu (f_of_int fpu 255) (f_of_int fpu (uint rangeMax - uint rangeMin)),
       n_zero_value_drop_frame = 0,
       shelf = buffers,
       temperature_data = replicate (nat (myImageWidth * myImageHeight)) (f_of_int fpu 0),
       image_data = replicate (nat (myImageWidth * myImageHeight * 3)) 0,
       thermal_pub = [],
       img_pub = [],
       sock_closed = False \<rparr>"

text \<open>The colour palette, as the source lists it: 256 triplets and a final \<open>-1\<close>.\<close>

definition colormap_ironblack :: "int list" where
  "colormap_ironblack =
  [
   255, 255, 255, 253, 253, 253, 251, 251, 251, 249, 249, 249, 247, 247, 247, 245, 245, 245,
    243, 243, 243, 241, 241, 241, 239, 239, 239, 237, 237, 237, 235, 235, 235, 233, 233, 233,
    231, 231, 231, 229, 229, 229, 227, 227, 227, 225, 225, 225, 223, 223, 223, 221, 221, 221,
    219, 219, 219, 217, 217, 217, 215, 215, 215, 213, 213, 213, 211, 211, 211, 209, 209, 209,
    207, 207, 207, 205, 205, 205, 203, 203, 203, 201, 201, 201, 199, 199, 199, 197, 197, 197,
    195, 195, 195, 193, 193, 193, 191, 191, 191, 189, 189, 189, 187, 187, 187, 185, 185, 185,
    183, 183, 183, 181, 181, 181, 179, 179, 179, 177, 177, 177, 175, 175, 175, 173, 173, 173,
    171, 171, 171, 169, 169, 169, 167, 167, 167, 165, 165, 165, 163, 163, 163, 161, 161, 161,
    159, 159, 159, 157, 157, 157, 155, 155, 155, 153, 153, 153, 151, 151, 151, 149, 149, 149,
    147, 147, 147, 145, 145, 145, 143, 143, 143, 141, 141, 141, 139, 139, 139, 137, 137, 137,
    135, 135, 135, 133, 133, 133, 131, 131, 131, 129, 129, 129, 126, 126, 126, 124, 124, 124,
    122, 122, 122, 120, 120, 120, 118, 118, 118, 116, 116, 116, 114, 114, 114, 112, 112, 112,
    110, 110, 110, 108, 108, 108, 106, 106, 106, 104, 104, 104, 102, 102, 102, 100, 100, 100,
    98, 98, 98, 96, 96, 96, 94, 94, 94, 92, 92, 92, 90, 90, 90, 88, 88, 88, 86, 86, 86, 84, 84,
    84, 82, 82, 82, 80, 80, 80, 78, 78, 78, 76, 76, 76, 74, 74, 74, 72, 72, 72, 70, 70, 70, 68,
    68, 68, 66, 66, 66, 64, 64, 64, 62, 62, 62, 60, 60, 60, 58, 58, 58, 56, 56, 56, 54, 54, 54,
    52, 52, 52, 50, 50, 50, 48, 48, 48, 46, 46, 46, 44, 44, 44, 42, 42, 42, 40, 40, 40, 38, 38,
    38, 36, 36, 36, 34, 34, 34, 32, 32, 32, 30, 30, 30, 28, 28, 28, 26, 26, 26, 24, 24, 24, 22,
    22, 22, 20, 20, 20, 18, 18, 18, 16, 16, 16, 14, 14, 14, 12, 12, 12, 10, 10, 10, 8, 8, 8, 6,
    6, 6, 4, 4, 4, 2, 2, 2, 0, 0, 0, 0, 0, 9, 2, 0, 16, 4, 0, 24, 6, 0, 31, 8, 0, 38, 10, 0,
    45, 12, 0, 53, 14, 0, 60, 17, 0, 67, 19, 0, 74, 21, 0, 82, 23, 0, 89, 25, 0, 96, 27, 0,
    103, 29, 0, 111, 31, 0, 118, 36, 0, 120, 41, 0, 121, 46, 0, 122, 51, 0, 123, 56, 0, 124,
    61, 0, 125, 66, 0, 126, 71, 0, 127, 76, 1, 128, 81, 1, 129, 86, 1, 130, 91, 1, 131, 96, 1,
    132, 101, 1, 133, 106, 1, 134, 111, 1, 135, 116, 1, 136, 121, 1, 136, 125, 2, 137, 130, 2,
    137, 135, 3, 137, 139, 3, 138, 144, 3, 138, 149, 4, 138, 153, 4, 139, 158, 5, 139, 163, 5,
    139, 167, 5, 140, 172, 6, 140, 177, 6, 140, 181, 7, 141, 186, 7, 141, 189, 10, 137, 191,
    13, 132, 194, 16, 127, 196, 19, 121, 198, 22, 116, 200, 25, 111, 203, 28, 106, 205, 31,
    101, 207, 34, 95, 209, 37, 90, 212, 40, 85, 214, 43, 80, 216, 46, 75, 218, 49, 69, 221, 52,
    64, 223, 55, 59, 224, 57, 49, 225, 60, 47, 226, 64, 44, 227, 67, 42, 228, 71, 39, 229, 74,
    37, 230, 78, 34, 231, 81, 32, 231, 85, 29, 232, 88, 27, 233, 92, 24, 234, 95, 22, 235, 99,
    19, 236, 102, 17, 237, 106, 14, 238, 109, 12, 239, 112, 12, 240, 116, 12, 240, 119, 12,
    241, 123, 12, 241, 127, 12, 242, 130, 12, 242, 134, 12, 243, 138, 12, 243, 141, 13, 244,
    145, 13, 244, 149, 13, 245, 152, 13, 245, 156, 13, 246, 160, 13, 246, 163, 13, 247, 167,
    13, 247, 171, 13, 248, 175, 14, 248, 178, 15, 249, 182, 16, 249, 185, 18, 250, 189, 19,
    250, 192, 20, 251, 196, 21, 251, 199, 22, 252, 203, 23, 252, 206, 24, 253, 210, 25, 253,
    213, 27, 254, 217, 28, 254, 220, 29, 255, 224, 30, 255, 227, 39, 255, 229, 53, 255, 231,
    67, 255, 233, 81, 255, 234, 95, 255, 236, 109, 255, 238, 123, 255, 240, 137, 255, 242, 151,
    255, 244, 165, 255, 246, 179, 255, 248, 193, 255, 249, 207, 255, 251, 221, 255, 253, 235,
    255, 255, 24, - 1
  ]"

subsection \<open>Array accesses\<close>

text \<open>
  \<^verbatim>\<open>operator[]\<close> of \<^verbatim>\<open>std::array\<close> and \<^verbatim>\<open>std::vector\<close> and the read through the
  pointer \<^verbatim>\<open>selectedColormap_\<close> check nothing; an access outside the container has no
  defined behaviour. The model makes it an error value.
\<close>

datatype error = OutOfBounds

definition rd :: "'a list \<Rightarrow> int \<Rightarrow> error + 'a" where
  "rd xs k = (if 0 \<le> k \<and> k < int (length xs) then Inr (xs ! nat k) else Inl OutOfBounds)"

definition wr :: "'a list \<Rightarrow> int \<Rightarrow> 'a \<Rightarrow> error + 'a list" where
  "wr xs k v = (if 0 \<le> k \<and> k < int (length xs) then Inr (xs[nat k := v]) else Inl OutOfBounds)"

text \<open>
  The sample at position \<open>i\<close> of segment \<open>iSegment\<close>:
  \<^verbatim>\<open>(shelf_[iSegment - 1][i * 2] << 8) + shelf_[iSegment - 1][i * 2 + 1]\<close>,
  computed in \<^verbatim>\<open>int\<close> and stored in a \<^verbatim>\<open>uint16_t\<close>.
\<close>

definition sample_at :: "8 word list list \<Rightarrow> nat \<Rightarrow> nat \<Rightarrow> error + 16 word" where
  "sample_at buffers iSegment i =
     (case rd buffers (int iSegment - 1) of
        Inl e \<Rightarrow> Inl e
      | Inr seg \<Rightarrow>
          (case rd seg (int i * 2) of
             Inl e \<Rightarrow> Inl e
           | Inr hi \<Rightarrow>
               (case rd seg (int i * 2 + 1) of
                  Inl e \<Rightarrow> Inl e
                | Inr lo \<Rightarrow> Inr (word_of_int (push_bit 8 (uint hi) + uint lo)))))"

section \<open>The auto-ranging pass\<close>

text \<open>
  One position of the scan (source lines 187 to 199): header positions and zero samples are
  passed over; the other samples update the bounds whose flag is set.
\<close>

definition scan_position :: "nat \<Rightarrow> nat \<Rightarrow> 'f thermal_data \<Rightarrow> error + 'f thermal_data" where
  "scan_position iSegment i s =
     (if i mod 82 < 2 then Inr s
      else
        (case sample_at (shelf s) iSegment i of
           Inl e \<Rightarrow> Inl e
         | Inr val \<Rightarrow>
             if val = 0 then Inr s
             else
               (let s1 = (if autoRangeMax s \<and> val > maxValue s
                          then s\<lparr>maxValue := val\<rparr> else s);
                    s2 = (if autoRangeMin s1 \<and> val < minValue s1
                          then s1\<lparr>minValue := val\<rparr> else s1)
                in Inr s2)))"

fun scan_segment :: "nat \<Rightarrow> nat list \<Rightarrow> 'f thermal_data \<Rightarrow> error + 'f thermal_data" where
  "scan_segment iSegment [] s = Inr s"
| "scan_segment iSegment (i # rest) s =
     (case scan_position iSegment i s of
        Inl e \<Rightarrow> Inl e
      | Inr s' \<Rightarrow> scan_segment iSegment rest s')"

fun scan_segments :: "nat list \<Rightarrow> 'f thermal_data \<Rightarrow> error + 'f thermal_data" where
  "scan_segments [] s = Inr s"
| "scan_segments (iSegment # rest) s =
     (case scan_segment iSegment [0..<4920] s of
        Inl e \<Rightarrow> Inl e
      | Inr s' \<Rightarrow> scan_segments rest s')"

text \<open>
  The body of \<^verbatim>\<open>if (autoRangeMin_ || autoRangeMax_)\<close> (source lines 179 to 203). The
  difference is taken in \<^verbatim>\<open>int\<close>, then stored in the \<^verbatim>\<open>float\<close> field.
\<close>

definition auto_range :: "'f fpu \<Rightarrow> 'f thermal_data \<Rightarrow> error + 'f thermal_data" where
  "auto_range fpu s =
     (let s1 = (if autoRangeMin s then s\<lparr>maxValue := 65535\<rparr> else s);
          s2 = (if autoRangeMax s1 then s1\<lparr>minValue := 0\<rparr> else s1)
      in case scan_segments [1..<5] s2 of
           Inl e \<Rightarrow> Inl e
         | Inr s3 \<Rightarrow>
             (let s4 = s3\<lparr>diff := f_of_int fpu (uint (maxValue s3) - uint (minValue s3))\<rparr>
              in Inr (s4\<lparr>scale := f_div fpu (f_of_int fpu 255) (diff s4)\<rparr>)))"

section \<open>Decoding, temperature and colour\<close>

text \<open>The palette index of a sample (source lines 220 to 226).\<close>

definition intensity :: "'f fpu \<Rightarrow> 'f thermal_data \<Rightarrow> 16 word \<Rightarrow> 16 word" where
  "intensity fpu s valueFrameBuffer =
     (if \<not> autoRangeMax s \<and> valueFrameBuffer > maxValue s then maxValue s
      else if \<not> autoRangeMin s \<and> valueFrameBuffer \<le> minValue s then minValue s
      else f_to_u16 fpu
             (f_mul fpu (f_of_int fpu (uint valueFrameBuffer - uint (minValue s))) (scale s)))"

definition selectedColormapSize :: int where
  "selectedColormapSize = int (length colormap_ironblack)"

text \<open>
  A channel offset (source lines 228 to 236):
  \<^verbatim>\<open>ofs = 3 * value + c; if (selectedColormapSize_ <= ofs) ofs = selectedColormapSize_ - 1;\<close>
\<close>

definition channel_ofs :: "16 word \<Rightarrow> int \<Rightarrow> int" where
  "channel_ofs val c =
     (let ofs = 3 * uint val + c
      in if selectedColormapSize \<le> ofs then selectedColormapSize - 1 else ofs)"

text \<open>The destination of position \<open>i\<close> of segment \<open>iSegment\<close> (source lines 210, 237, 238).\<close>

definition dest_column :: "nat \<Rightarrow> int" where
  "dest_column i = (int i mod 82) - 2 + (myImageWidth div 2) * ((int i mod (82 * 2)) div 82)"

definition dest_row :: "nat \<Rightarrow> nat \<Rightarrow> int" where
  "dest_row iSegment i = int i div 82 div 2 + 30 * (int iSegment - 1)"

text \<open>
  The conversion and the four stores for one non-zero sample (source lines 220 to 244).
  A palette entry is an \<^verbatim>\<open>int\<close>, stored as a \<^verbatim>\<open>uint8_t\<close>.
\<close>

definition write_pixel ::
  "'f fpu \<Rightarrow> nat \<Rightarrow> nat \<Rightarrow> 16 word \<Rightarrow> 'f thermal_data \<Rightarrow> error + 'f thermal_data" where
  "write_pixel fpu iSegment i valueFrameBuffer s =
     (let val = intensity fpu s valueFrameBuffer;
          temperature = f_temp fpu valueFrameBuffer;
          ofs_r = channel_ofs val 0;
          ofs_g = channel_ofs val 1;
          ofs_b = channel_ofs val 2;
          column = dest_column i;
          row = dest_row iSegment i
      in if row < myImageHeight \<and> column < myImageWidth then
           (case rd colormap_ironblack ofs_b of
              Inl e \<Rightarrow> Inl e
            | Inr cb \<Rightarrow>
           (case wr (image_data s) ((row * myImageWidth + column) * 3 + 0) (word_of_int cb) of
              Inl e \<Rightarrow> Inl e
            | Inr img0 \<Rightarrow>
           (case rd colormap_ironblack ofs_g of
              Inl e \<Rightarrow> Inl e
            | Inr cg \<Rightarrow>
           (case wr img0 ((row * myImageWidth + column) * 3 + 1) (word_of_int cg) of
              Inl e \<Rightarrow> Inl e
            | Inr img1 \<Rightarrow>
           (case rd colormap_ironblack ofs_r of
              Inl e \<Rightarrow> Inl e
            | Inr cr \<Rightarrow>
           (case wr img1 ((row * myImageWidth + column) * 3 + 2) (word_of_int cr) of
              Inl e \<Rightarrow> Inl e
            | Inr img2 \<Rightarrow>
           (case wr (temperature_data s) (row * myImageWidth + column) temperature of
              Inl e \<Rightarrow> Inl e
            | Inr tmp \<Rightarrow> Inr (s\<lparr>image_data := img2, temperature_data := tmp\<rparr>))))))))
         else Inr s)"

text \<open>
  The inner loop over the positions of one segment (source lines 211 to 245). A header
  position is passed over (\<^verbatim>\<open>continue\<close>); a zero sample counts a drop and leaves the
  loop (\<^verbatim>\<open>break\<close>), so the positions after it are not visited.
\<close>

fun decode_segment ::
  "'f fpu \<Rightarrow> nat \<Rightarrow> nat list \<Rightarrow> 'f thermal_data \<Rightarrow> error + 'f thermal_data" where
  "decode_segment fpu iSegment [] s = Inr s"
| "decode_segment fpu iSegment (i # rest) s =
     (if i mod 82 < 2 then decode_segment fpu iSegment rest s
      else
        (case sample_at (shelf s) iSegment i of
           Inl e \<Rightarrow> Inl e
         | Inr valueFrameBuffer \<Rightarrow>
             if valueFrameBuffer = 0
             then Inr (s\<lparr>n_zero_value_drop_frame := n_zero_value_drop_frame s + 1\<rparr>)
             else
               (case write_pixel fpu iSegment i valueFrameBuffer s of
                  Inl e \<Rightarrow> Inl e
                | Inr s' \<Rightarrow> decode_segment fpu iSegment rest s')))"

fun decode_segments ::
  "'f fpu \<Rightarrow> nat list \<Rightarrow> 'f thermal_data \<Rightarrow> error + 'f thermal_data" where
  "decode_segments fpu [] s = Inr s"
| "decode_segments fpu (iSegment # rest) s =
     (case decode_segment fpu iSegment [0..<4920] s of
        Inl e \<Rightarrow> Inl e
      | Inr s' \<Rightarrow> decode_segments fpu rest s')"

text \<open>The end of \<^verbatim>\<open>process_data\<close> (source lines 247 to 262).\<close>

definition publish :: "'f thermal_data \<Rightarrow> 'f thermal_data" where
  "publish s =
     s\<lparr> thermal_pub :=
          \<lparr> temp = temperature_data s, height = myImageHeight, width = myImageWidth \<rparr>
            # thermal_pub s,
        img_pub :=
          \<lparr> frame_id = ''thermal_image'', img_height = myImageHeight,
            img_width = myImageWidth, encoding = ''rgb8'', is_bigendian = False,
            step = myImageWidth * 3, data = image_data s \<rparr>
            # img_pub s \<rparr>"

definition process_data :: "'f fpu \<Rightarrow> 'f thermal_data \<Rightarrow> error + 'f thermal_data" where
  "process_data fpu s =
     (case (if autoRangeMin s \<or> autoRangeMax s then auto_range fpu s else Inr s) of
        Inl e \<Rightarrow> Inl e
      | Inr s1 \<Rightarrow>
          (case decode_segments fpu [1..<5] s1 of
             Inl e \<Rightarrow> Inl e
           | Inr s2 \<Rightarrow>
               Inr (publish (if n_zero_value_drop_frame s2 \<noteq> 0
                             then s2\<lparr>n_zero_value_drop_frame := 0\<rparr> else s2))))"

section \<open>The receive loop\<close>

text \<open>
  What one call of \<^verbatim>\<open>recvfrom\<close> returns: a negative value, or a datagram. A datagram
  of \<open>n\<close> bytes fills the first \<open>n\<close> bytes of the buffer and leaves the others as they
  were; one longer than the buffer is cut to \<^verbatim>\<open>sizeof(shelf_[i])\<close>, the length of the
  buffer. The value returned is then the number of bytes stored, which is never negative.
\<close>

datatype recv = RecvFailed | Datagram "8 word list"

definition store_datagram :: "8 word list \<Rightarrow> 8 word list \<Rightarrow> 8 word list" where
  "store_datagram buf d =
     (let n = min (length d) (length buf) in take n d @ drop n buf)"

datatype outcome = Shutdown | ReceiveFailed | Blocked | Fault error

text \<open>
  The loop \<^verbatim>\<open>for (int i = 0; i < 4; ++i)\<close> of \<^verbatim>\<open>temp_data\<close> (source lines 157 to
  167), over the results of the calls of \<^verbatim>\<open>recvfrom\<close> still to come. The only test is
  \<^verbatim>\<open>received_bytes < 0\<close>. With no result left the call does not return.
\<close>

fun receive_segments ::
  "nat list \<Rightarrow> recv list \<Rightarrow> 'f thermal_data
     \<Rightarrow> (outcome \<times> 'f thermal_data) + ('f thermal_data \<times> recv list)" where
  "receive_segments [] net s = Inr (s, net)"
| "receive_segments (i # rest) [] s = Inl (Blocked, s)"
| "receive_segments (i # rest) (RecvFailed # net) s = Inl (ReceiveFailed, s\<lparr>sock_closed := True\<rparr>)"
| "receive_segments (i # rest) (Datagram d # net) s =
     (case rd (shelf s) (int i) of
        Inl e \<Rightarrow> Inl (Fault e, s)
      | Inr buf \<Rightarrow>
          (case wr (shelf s) (int i) (store_datagram buf d) of
             Inl e \<Rightarrow> Inl (Fault e, s)
           | Inr buffers \<Rightarrow> receive_segments rest net (s\<lparr>shelf := buffers\<rparr>)))"

text \<open>
  \<^verbatim>\<open>temp_data\<close> (source lines 153 to 170). The first list holds the successive values
  of \<^verbatim>\<open>rclcpp::ok()\<close>; at its end the node is shut down.
\<close>

fun temp_data ::
  "'f fpu \<Rightarrow> bool list \<Rightarrow> recv list \<Rightarrow> 'f thermal_data \<Rightarrow> outcome \<times> 'f thermal_data" where
  "temp_data fpu [] net s = (Shutdown, s)"
| "temp_data fpu (ok # oks) net s =
     (if \<not> ok then (Shutdown, s)
      else
        (case receive_segments [0..<4] net s of
           Inl stopped \<Rightarrow> stopped
         | Inr (s1, net1) \<Rightarrow>
             (case process_data fpu s1 of
                Inl e \<Rightarrow> (Fault e, s1)
              | Inr s2 \<Rightarrow> temp_data fpu oks net1 s2)))"

section \<open>Well-formed states and the values of a frame\<close>

text \<open>
  The sizes the source fixes by type or at construction and never changes:
  \<^verbatim>\<open>std::array<std::array<uint8_t, 9840>, 4> shelf_\<close>, 160 * 120 temperatures and
  160 * 120 * 3 image bytes.
\<close>

definition wf :: "'f thermal_data \<Rightarrow> bool" where
  "wf s \<longleftrightarrow>
     length (shelf s) = 4 \<and> list_all (\<lambda>seg. length seg = 9840) (shelf s) \<and>
     length (temperature_data s) = 19200 \<and> length (image_data s) = 57600"

text \<open>
  The definitions from here to the end of the section are not functions of the source.
  They name the values the theorems speak about, and lemmas below tie each of them to the
  functions above: on a well-formed state \<open>sample_at\<close> returns \<open>raw_sample\<close>,
  \<open>write_pixel\<close> returns \<open>store_pixel\<close>, and the loops return the folds of
  \<open>put_image\<close> and \<open>put_temp\<close> over \<open>decoded_pairs\<close>.

  The sample, the grid cell and the palette byte of a position, as plain values:
\<close>

definition raw_sample :: "8 word list list \<Rightarrow> nat \<Rightarrow> nat \<Rightarrow> 16 word" where
  "raw_sample buffers iSegment i =
     word_of_int (push_bit 8 (uint (buffers ! (iSegment - 1) ! (i * 2)))
                  + uint (buffers ! (iSegment - 1) ! (i * 2 + 1)))"

definition cell :: "nat \<Rightarrow> nat \<Rightarrow> nat" where
  "cell iSegment i = nat (dest_row iSegment i * myImageWidth + dest_column i)"

definition palette_byte :: "16 word \<Rightarrow> int \<Rightarrow> 8 word" where
  "palette_byte val c = word_of_int (colormap_ironblack ! nat (channel_ofs val c))"

text \<open>
  The stores of one position into the image and into the temperature grid, and the state
  after them. The sample and its palette index are taken from the frame and the
  calibration of a state \<open>b\<close>.
\<close>

fun put_image :: "'f fpu \<Rightarrow> 'f thermal_data \<Rightarrow> nat \<times> nat \<Rightarrow> 8 word list \<Rightarrow> 8 word list" where
  "put_image fpu b (iSegment, i) img =
     img[cell iSegment i * 3 := palette_byte (intensity fpu b (raw_sample (shelf b) iSegment i)) 2,
         cell iSegment i * 3 + 1 := palette_byte (intensity fpu b (raw_sample (shelf b) iSegment i)) 1,
         cell iSegment i * 3 + 2 := palette_byte (intensity fpu b (raw_sample (shelf b) iSegment i)) 0]"

fun put_temp :: "'f fpu \<Rightarrow> 'f thermal_data \<Rightarrow> nat \<times> nat \<Rightarrow> 'f list \<Rightarrow> 'f list" where
  "put_temp fpu b (iSegment, i) tmp =
     tmp[cell iSegment i := f_temp fpu (raw_sample (shelf b) iSegment i)]"

definition store_pixel :: "'f fpu \<Rightarrow> nat \<Rightarrow> nat \<Rightarrow> 'f thermal_data \<Rightarrow> 'f thermal_data" where
  "store_pixel fpu iSegment i s =
     s\<lparr>image_data := put_image fpu s (iSegment, i) (image_data s),
       temperature_data := put_temp fpu s (iSegment, i) (temperature_data s)\<rparr>"

text \<open>
  The positions of a segment that the decoding loop converts: the positions outside the
  headers, up to the first of them whose sample is zero. \<open>zero_hit\<close> says that there is
  such a sample.
\<close>

definition decoded_positions :: "8 word list list \<Rightarrow> nat \<Rightarrow> nat list \<Rightarrow> nat list" where
  "decoded_positions buffers iSegment ps =
     takeWhile (\<lambda>i. raw_sample buffers iSegment i \<noteq> 0) (filter (\<lambda>i. \<not> i mod 82 < 2) ps)"

definition zero_hit :: "8 word list list \<Rightarrow> nat \<Rightarrow> nat list \<Rightarrow> bool" where
  "zero_hit buffers iSegment ps \<longleftrightarrow>
     list_ex (\<lambda>i. \<not> i mod 82 < 2 \<and> raw_sample buffers iSegment i = 0) ps"

definition decoded_pairs :: "8 word list list \<Rightarrow> nat list \<Rightarrow> (nat \<times> nat) list" where
  "decoded_pairs buffers ks =
     concat (map (\<lambda>k. map (Pair k) (decoded_positions buffers k [0..<4920])) ks)"

text \<open>
  The samples that the auto-ranging scan compares: those outside the headers that are
  not zero, in the order of the scan.
\<close>

definition scanned_segment :: "8 word list list \<Rightarrow> nat \<Rightarrow> nat list \<Rightarrow> 16 word list" where
  "scanned_segment buffers iSegment ps =
     filter (\<lambda>v. v \<noteq> 0) (map (raw_sample buffers iSegment) (filter (\<lambda>i. \<not> i mod 82 < 2) ps))"

definition scanned_samples :: "8 word list list \<Rightarrow> nat list \<Rightarrow> 16 word list" where
  "scanned_samples buffers ks = concat (map (\<lambda>k. scanned_segment buffers k [0..<4920]) ks)"

text \<open>The bounds after the auto-ranging pass, from the bounds and the frame before it.\<close>

definition ranged_max :: "'f thermal_data \<Rightarrow> 16 word" where
  "ranged_max s =
     (let seed = (if autoRangeMin s then 65535 else maxValue s)
      in if autoRangeMax s then fold max (scanned_samples (shelf s) [1..<5]) seed else seed)"

definition ranged_min :: "'f thermal_data \<Rightarrow> 16 word" where
  "ranged_min s =
     (let seed = (if autoRangeMax s then 0 else minValue s)
      in if autoRangeMin s then fold min (scanned_samples (shelf s) [1..<5]) seed else seed)"

text \<open>The state after the first block of \<^verbatim>\<open>process_data\<close>, when no access fails.\<close>

definition calibrated :: "'f fpu \<Rightarrow> 'f thermal_data \<Rightarrow> 'f thermal_data" where
  "calibrated fpu s =
     (if autoRangeMin s \<or> autoRangeMax s
      then s\<lparr>maxValue := ranged_max s, minValue := ranged_min s,
             diff := f_of_int fpu (uint (ranged_max s) - uint (ranged_min s)),
             scale := f_div fpu (f_of_int fpu 255)
                        (f_of_int fpu (uint (ranged_max s) - uint (ranged_min s)))\<rparr>
      else s)"

text \<open>A frame whose bytes are all the same, and the state at start-up holding it.\<close>

definition flat_frame :: "8 word \<Rightarrow> 8 word list list" where
  "flat_frame x = replicate 4 (replicate 9840 x)"

definition flat_state :: "8 word \<Rightarrow> rat thermal_data" where
  "flat_state x = initial exact_fpu (flat_frame x)"

definition ieee_state :: "8 word \<Rightarrow> ieee thermal_data" where
  "ieee_state x = initial ieee_fpu (flat_frame x)"

text \<open>
  The frame of bytes 117 whose first segment has the sample 0 at position \<open>p\<close>, and the
  state at start-up holding it.
\<close>

definition dented_frame :: "nat \<Rightarrow> 8 word list list" where
  "dented_frame p = (flat_frame 117)[0 := (replicate 9840 117)[p * 2 := 0, p * 2 + 1 := 0]]"

definition dented_state :: "nat \<Rightarrow> rat thermal_data" where
  "dented_state p = (flat_state 117)\<lparr>shelf := dented_frame p\<rparr>"

text \<open>The segment buffers after the datagrams \<open>ds\<close> have been stored at the indices \<open>ks\<close>.\<close>

definition store_datagrams ::
  "nat list \<Rightarrow> 8 word list list \<Rightarrow> 8 word list list \<Rightarrow> 8 word list list" where
  "store_datagrams ks ds buffers =
     fold (\<lambda>(k, d) bufs. bufs[k := store_datagram (bufs ! k) d]) (zip ks ds) buffers"

section \<open>Basic facts\<close>

lemma length_colormap: "length colormap_ironblack = 769"
  by (simp add: colormap_ironblack_def)

lemma selectedColormapSize_eq: "selectedColormapSize = 769"
  by (simp add: selectedColormapSize_def length_colormap)

lemma wf_initial:
  "length buffers = 4 \<Longrightarrow> list_all (\<lambda>seg. length seg = 9840) buffers \<Longrightarrow> wf (initial fpu buffers)"
  by (simp add: wf_def initial_def myImageWidth_def myImageHeight_def)

lemma sample_at_wf:
  assumes "wf s" and "1 \<le> iSegment" and "iSegment \<le> 4" and "i < 4920"
  shows "sample_at (shelf s) iSegment i = Inr (raw_sample (shelf s) iSegment i)"
proof -
  have len: "length (shelf s) = 4" and all: "list_all (\<lambda>seg. length seg = 9840) (shelf s)"
    using assms(1) by (simp_all add: wf_def)
  have k: "nat (int iSegment - 1) = iSegment - 1"
    by simp
  have seg: "length (shelf s ! (iSegment - 1)) = 9840"
    using all len assms(2,3) by (simp add: list_all_length)
  have r1: "rd (shelf s) (int iSegment - 1) = Inr (shelf s ! (iSegment - 1))"
    using len assms(2,3) by (simp add: rd_def k)
  have r2: "rd (shelf s ! (iSegment - 1)) (int i * 2) = Inr (shelf s ! (iSegment - 1) ! (i * 2))"
    using seg assms(4) by (simp add: rd_def nat_mult_distrib)
  have r3: "rd (shelf s ! (iSegment - 1)) (int i * 2 + 1)
              = Inr (shelf s ! (iSegment - 1) ! (i * 2 + 1))"
    using seg assms(4) by (simp add: rd_def nat_add_distrib nat_mult_distrib)
  show ?thesis
    by (simp only: sample_at_def raw_sample_def r1 r2 r3 sum.case)
qed

lemma dest_column_bounds:
  assumes "2 \<le> i mod 82"
  shows "0 \<le> dest_column i" and "dest_column i < 160"
proof -
  have "int (i mod 82) = int i mod 82" by (simp add: zmod_int)
  then have a: "2 \<le> int i mod 82" using assms by linarith
  have b: "int i mod 82 < 82" by simp
  have c: "0 \<le> (int i mod 164) div 82" by simp
  have d: "(int i mod 164) div 82 \<le> 1"
  proof -
    have "int i mod 164 < 164" by simp
    then show ?thesis by simp
  qed
  show "0 \<le> dest_column i" using a c by (simp add: dest_column_def myImageWidth_def)
  show "dest_column i < 160" using b d by (simp add: dest_column_def myImageWidth_def)
qed

lemma dest_row_bounds:
  assumes "1 \<le> k" "k \<le> 4" "i < 4920"
  shows "0 \<le> dest_row k i" and "dest_row k i < 120"
proof -
  have a: "int i div 82 div 2 = int i div 164" by (simp add: zdiv_zmult2_eq)
  have b: "int i div 164 < 30" using assms(3) by simp
  have c: "0 \<le> int i div 164" by simp
  show "0 \<le> dest_row k i" using assms c by (simp add: dest_row_def a)
  show "dest_row k i < 120" using assms b by (simp add: dest_row_def a)
qed

lemma channel_ofs_bounds:
  assumes "c \<in> {0, 1, 2}"
  shows "0 \<le> channel_ofs val c" and "channel_ofs val c < 769"
  using assms by (auto simp: channel_ofs_def selectedColormapSize_eq Let_def)

lemma rd_colormap:
  assumes "c \<in> {0, 1, 2}"
  shows "rd colormap_ironblack (channel_ofs val c) = Inr (colormap_ironblack ! nat (channel_ofs val c))"
  using channel_ofs_bounds [OF assms, of val] by (simp add: rd_def length_colormap)

lemma cell_eq:
  assumes "1 \<le> k" "k \<le> 4" "i < 4920" "2 \<le> i mod 82"
  shows "int (cell k i) = dest_row k i * myImageWidth + dest_column i"
    and "cell k i < 19200"
proof -
  note c = dest_column_bounds [OF assms(4)]
  note r = dest_row_bounds [OF assms(1-3)]
  have nn: "0 \<le> dest_row k i * 160 + dest_column i" using c r by simp
  then show "int (cell k i) = dest_row k i * myImageWidth + dest_column i"
    by (simp add: cell_def myImageWidth_def)
  have "dest_row k i * 160 + dest_column i < 19200" using c r by linarith
  then show "cell k i < 19200" using nn by (simp add: cell_def myImageWidth_def)
qed

lemma wr_nat: "n < length xs \<Longrightarrow> wr xs (int n) v = Inr (xs[n := v])"
  by (simp add: wr_def)

lemma write_pixel_wf:
  assumes "wf s" "1 \<le> k" "k \<le> 4" "i < 4920" "2 \<le> i mod 82"
  shows "write_pixel fpu k i (raw_sample (shelf s) k i) s = Inr (store_pixel fpu k i s)"
proof -
  note c = dest_column_bounds [OF assms(5)]
  note r = dest_row_bounds [OF assms(2-4)]
  note ce = cell_eq [OF assms(2-5)]
  have li: "length (image_data s) = 57600" and lt: "length (temperature_data s) = 19200"
    using assms(1) by (simp_all add: wf_def)
  have inb: "dest_row k i < myImageHeight \<and> dest_column i < myImageWidth"
    using c r by (simp add: myImageWidth_def myImageHeight_def)
  have i0: "int (cell k i) * 3 + 0 = int (cell k i * 3)"
    and i1: "int (cell k i) * 3 + 1 = int (cell k i * 3 + 1)"
    and i2: "int (cell k i) * 3 + 2 = int (cell k i * 3 + 2)"
    by simp_all
  have b0: "cell k i * 3 < 57600" and b1: "cell k i * 3 + 1 < 57600"
    and b2: "cell k i * 3 + 2 < 57600"
    using ce(2) by simp_all
  have it: "dest_row k i * myImageWidth + dest_column i = int (cell k i)"
    by (simp add: ce(1))
  define val where "val = intensity fpu s (raw_sample (shelf s) k i)"
  have w0: "wr (image_data s) (int (cell k i * 3)) x = Inr ((image_data s)[cell k i * 3 := x])"
    for x
    by (rule wr_nat) (simp only: li b0)
  have w1: "wr ((image_data s)[cell k i * 3 := x]) (int (cell k i * 3 + 1)) y
              = Inr ((image_data s)[cell k i * 3 := x, cell k i * 3 + 1 := y])" for x y
    by (rule wr_nat) (simp only: length_list_update li b1)
  have w2: "wr ((image_data s)[cell k i * 3 := x, cell k i * 3 + 1 := y]) (int (cell k i * 3 + 2)) z
              = Inr ((image_data s)[cell k i * 3 := x, cell k i * 3 + 1 := y, cell k i * 3 + 2 := z])"
    for x y z
    by (rule wr_nat) (simp only: length_list_update li b2)
  have w3: "wr (temperature_data s) (int (cell k i)) t = Inr ((temperature_data s)[cell k i := t])"
    for t
    by (rule wr_nat) (simp only: lt ce(2))
  have c0: "rd colormap_ironblack (channel_ofs val 0) = Inr (colormap_ironblack ! nat (channel_ofs val 0))"
    and c1: "rd colormap_ironblack (channel_ofs val 1) = Inr (colormap_ironblack ! nat (channel_ofs val 1))"
    and c2: "rd colormap_ironblack (channel_ofs val 2) = Inr (colormap_ironblack ! nat (channel_ofs val 2))"
    by (simp_all add: rd_colormap)
  show ?thesis
    unfolding write_pixel_def Let_def it store_pixel_def put_image.simps put_temp.simps
      palette_byte_def
    unfolding val_def [symmetric] i0 i1 i2
    by (simp only: inb simp_thms if_True c0 c1 c2 w0 w1 w2 w3 sum.case)
qed

section \<open>The decoding loops as folds\<close>

lemma put_image_length [simp]: "length (put_image fpu b p img) = length img"
  by (cases p) simp

lemma put_temp_length [simp]: "length (put_temp fpu b p tmp) = length tmp"
  by (cases p) simp

lemma intensity_frame [simp]:
  "intensity fpu (b\<lparr>image_data := im, temperature_data := tm, n_zero_value_drop_frame := n\<rparr>) v
     = intensity fpu b v"
  by (simp add: intensity_def)

lemma put_image_frame [simp]:
  "put_image fpu (b\<lparr>image_data := im, temperature_data := tm, n_zero_value_drop_frame := n\<rparr>) p
     = put_image fpu b p"
  by (cases p) (simp add: fun_eq_iff)

lemma put_temp_frame [simp]:
  "put_temp fpu (b\<lparr>image_data := im, temperature_data := tm, n_zero_value_drop_frame := n\<rparr>) p
     = put_temp fpu b p"
  by (cases p) (simp add: fun_eq_iff)

lemma wf_frame:
  "wf b \<Longrightarrow> length im = 57600 \<Longrightarrow> length tm = 19200
     \<Longrightarrow> wf (b\<lparr>image_data := im, temperature_data := tm, n_zero_value_drop_frame := n\<rparr>)"
  by (simp add: wf_def)

lemma decode_segment_pure:
  assumes "wf b" and "1 \<le> k" and "k \<le> 4" and "\<forall>i\<in>set ps. i < 4920"
    and "length im = 57600" and "length tm = 19200"
  shows "decode_segment fpu k ps
           (b\<lparr>image_data := im, temperature_data := tm, n_zero_value_drop_frame := n\<rparr>)
         = Inr (b\<lparr>image_data :=
                     fold (put_image fpu b) (map (Pair k) (decoded_positions (shelf b) k ps)) im,
                   temperature_data :=
                     fold (put_temp fpu b) (map (Pair k) (decoded_positions (shelf b) k ps)) tm,
                   n_zero_value_drop_frame :=
                     (if zero_hit (shelf b) k ps then n + 1 else n)\<rparr>)"
  using assms(4-6)
proof (induction ps arbitrary: im tm)
  case Nil
  then show ?case by (simp add: decoded_positions_def zero_hit_def)
next
  case (Cons i ps)
  let ?s = "b\<lparr>image_data := im, temperature_data := tm, n_zero_value_drop_frame := n\<rparr>"
  have wfs: "wf ?s" using assms(1) Cons.prems by (simp add: wf_frame)
  have i: "i < 4920" and rest: "\<forall>i\<in>set ps. i < 4920" using Cons.prems by simp_all
  show ?case
  proof (cases "i mod 82 < 2")
    case True
    then show ?thesis
      using Cons.IH [OF rest Cons.prems(2,3)] by (simp add: decoded_positions_def zero_hit_def)
  next
    case False
    have smp: "sample_at (shelf ?s) k i = Inr (raw_sample (shelf b) k i)"
      using sample_at_wf [OF wfs assms(2,3) i] by simp
    show ?thesis
    proof (cases "raw_sample (shelf b) k i = 0")
      case True
      then show ?thesis
        using False smp by (simp add: decoded_positions_def zero_hit_def)
    next
      case nz: False
      have "write_pixel fpu k i (raw_sample (shelf ?s) k i) ?s = Inr (store_pixel fpu k i ?s)"
        using False by (intro write_pixel_wf [OF wfs assms(2,3) i]) simp
      then have wp: "write_pixel fpu k i (raw_sample (shelf b) k i) ?s
          = Inr (b\<lparr>image_data := put_image fpu b (k, i) im,
                     temperature_data := put_temp fpu b (k, i) tm,
                     n_zero_value_drop_frame := n\<rparr>)"
        by (simp add: store_pixel_def)
      have ih: "decode_segment fpu k ps
           (b\<lparr>image_data := put_image fpu b (k, i) im,
              temperature_data := put_temp fpu b (k, i) tm, n_zero_value_drop_frame := n\<rparr>)
         = Inr (b\<lparr>image_data :=
                     fold (put_image fpu b) (map (Pair k) (decoded_positions (shelf b) k ps))
                       (put_image fpu b (k, i) im),
                   temperature_data :=
                     fold (put_temp fpu b) (map (Pair k) (decoded_positions (shelf b) k ps))
                       (put_temp fpu b (k, i) tm),
                   n_zero_value_drop_frame :=
                     (if zero_hit (shelf b) k ps then n + 1 else n)\<rparr>)"
        by (rule Cons.IH [OF rest]) (simp_all add: Cons.prems)
      have dp: "decoded_positions (shelf b) k (i # ps) = i # decoded_positions (shelf b) k ps"
        using False nz by (simp add: decoded_positions_def)
      have zh: "zero_hit (shelf b) k (i # ps) = zero_hit (shelf b) k ps"
        using nz by (simp add: zero_hit_def)
      show ?thesis
        unfolding dp zh using False nz smp wp ih by simp
    qed
  qed
qed

lemma fold_put_image_length [simp]: "length (fold (put_image fpu b) ps img) = length img"
  by (induction ps arbitrary: img) simp_all

lemma fold_put_temp_length [simp]: "length (fold (put_temp fpu b) ps tmp) = length tmp"
  by (induction ps arbitrary: tmp) simp_all

lemma decode_segments_pure:
  assumes "wf b" and "\<forall>k\<in>set ks. 1 \<le> k \<and> k \<le> 4"
    and "length im = 57600" and "length tm = 19200"
  shows "decode_segments fpu ks
           (b\<lparr>image_data := im, temperature_data := tm, n_zero_value_drop_frame := n\<rparr>)
         = Inr (b\<lparr>image_data := fold (put_image fpu b) (decoded_pairs (shelf b) ks) im,
                   temperature_data := fold (put_temp fpu b) (decoded_pairs (shelf b) ks) tm,
                   n_zero_value_drop_frame :=
                     n + of_nat (length (filter (\<lambda>k. zero_hit (shelf b) k [0..<4920]) ks))\<rparr>)"
  using assms(2-4)
proof (induction ks arbitrary: im tm n)
  case Nil
  then show ?case by (simp add: decoded_pairs_def)
next
  case (Cons k ks)
  have k: "1 \<le> k" "k \<le> 4" and rest: "\<forall>k\<in>set ks. 1 \<le> k \<and> k \<le> 4"
    using Cons.prems(1) by simp_all
  have pos: "\<forall>i\<in>set [0..<4920]. i < 4920"
    by (simp del: upt_rec_numeral)
  note seg = decode_segment_pure [OF assms(1) k pos Cons.prems(2,3), of fpu n]
  have dp: "decoded_pairs (shelf b) (k # ks)
      = map (Pair k) (decoded_positions (shelf b) k [0..<4920]) @ decoded_pairs (shelf b) ks"
    by (simp add: decoded_pairs_def del: upt_rec_numeral)
  show ?case
    unfolding dp decode_segments.simps seg sum.case
    by (subst Cons.IH [OF rest]) (simp_all add: Cons.prems del: upt_rec_numeral)
qed

section \<open>The scanning loops as folds\<close>

lemma wf_bounds:
  "wf b \<Longrightarrow> wf (b\<lparr>maxValue := hi, minValue := lo\<rparr>)"
  by (simp add: wf_def)

lemma scan_segment_pure:
  assumes "wf b" and "1 \<le> k" and "k \<le> 4" and "\<forall>i\<in>set ps. i < 4920"
  shows "scan_segment k ps (b\<lparr>maxValue := hi, minValue := lo\<rparr>)
         = Inr (b\<lparr>maxValue :=
                     (if autoRangeMax b then fold max (scanned_segment (shelf b) k ps) hi else hi),
                   minValue :=
                     (if autoRangeMin b then fold min (scanned_segment (shelf b) k ps) lo else lo)\<rparr>)"
  using assms(4)
proof (induction ps arbitrary: hi lo)
  case Nil
  then show ?case by (simp add: scanned_segment_def)
next
  case (Cons i ps)
  let ?s = "b\<lparr>maxValue := hi, minValue := lo\<rparr>"
  have wfs: "wf ?s" using assms(1) by (rule wf_bounds)
  have i: "i < 4920" and rest: "\<forall>i\<in>set ps. i < 4920" using Cons.prems by simp_all
  note ih = Cons.IH [OF rest]
  show ?case
  proof (cases "i mod 82 < 2")
    case True
    then show ?thesis
      using ih by (simp add: scanned_segment_def scan_position_def)
  next
    case False
    have smp: "sample_at (shelf ?s) k i = Inr (raw_sample (shelf b) k i)"
      using sample_at_wf [OF wfs assms(2,3) i] by simp
    show ?thesis
    proof (cases "raw_sample (shelf b) k i = 0")
      case True
      then show ?thesis
        using False smp ih by (simp add: scanned_segment_def scan_position_def)
    next
      case nz: False
      have sc: "scanned_segment (shelf b) k (i # ps)
                  = raw_sample (shelf b) k i # scanned_segment (shelf b) k ps"
        using False nz by (simp add: scanned_segment_def)
      have pos: "scan_position k i ?s
          = Inr (b\<lparr>maxValue := (if autoRangeMax b then max (raw_sample (shelf b) k i) hi else hi),
                     minValue := (if autoRangeMin b then min (raw_sample (shelf b) k i) lo else lo)\<rparr>)"
        using False nz smp by (auto simp: scan_position_def Let_def max_def min_def)
      show ?thesis
        unfolding sc scan_segment.simps pos sum.case ih by simp
    qed
  qed
qed

lemma scan_segments_pure:
  assumes "wf b" and "\<forall>k\<in>set ks. 1 \<le> k \<and> k \<le> 4"
  shows "scan_segments ks (b\<lparr>maxValue := hi, minValue := lo\<rparr>)
         = Inr (b\<lparr>maxValue :=
                     (if autoRangeMax b then fold max (scanned_samples (shelf b) ks) hi else hi),
                   minValue :=
                     (if autoRangeMin b then fold min (scanned_samples (shelf b) ks) lo else lo)\<rparr>)"
  using assms(2)
proof (induction ks arbitrary: hi lo)
  case Nil
  then show ?case by (simp add: scanned_samples_def)
next
  case (Cons k ks)
  have k: "1 \<le> k" "k \<le> 4" and rest: "\<forall>k\<in>set ks. 1 \<le> k \<and> k \<le> 4"
    using Cons.prems by simp_all
  have pos: "\<forall>i\<in>set [0..<4920]. i < 4920"
    by (simp del: upt_rec_numeral)
  note seg = scan_segment_pure [OF assms(1) k pos]
  have sc: "scanned_samples (shelf b) (k # ks)
      = scanned_segment (shelf b) k [0..<4920] @ scanned_samples (shelf b) ks"
    by (simp add: scanned_samples_def del: upt_rec_numeral)
  show ?case
    unfolding sc scan_segments.simps seg sum.case Cons.IH [OF rest]
    by (simp del: upt_rec_numeral)
qed

lemma auto_range_pure:
  assumes "wf s"
  shows "auto_range fpu s
         = Inr (s\<lparr>maxValue := ranged_max s, minValue := ranged_min s,
                  diff := f_of_int fpu (uint (ranged_max s) - uint (ranged_min s)),
                  scale := f_div fpu (f_of_int fpu 255)
                             (f_of_int fpu (uint (ranged_max s) - uint (ranged_min s)))\<rparr>)"
proof -
  let ?hi = "if autoRangeMin s then 65535 else maxValue s"
  let ?lo = "if autoRangeMax s then 0 else minValue s"
  let ?s1 = "if autoRangeMin s then s\<lparr>maxValue := 65535\<rparr> else s"
  have seed: "(if autoRangeMax ?s1 then ?s1\<lparr>minValue := 0\<rparr> else ?s1)
              = s\<lparr>maxValue := ?hi, minValue := ?lo\<rparr>"
    by simp
  have ks: "\<forall>k\<in>set [1..<5]. 1 \<le> k \<and> k \<le> 4"
    by auto
  note scan = scan_segments_pure [OF assms ks, where hi = ?hi and lo = ?lo]
  show ?thesis
    unfolding auto_range_def Let_def seed scan sum.case ranged_max_def ranged_min_def
    by simp
qed

section \<open>The whole of \<^verbatim>\<open>process_data\<close>\<close>

lemma calibrated_frame [simp]:
  "shelf (calibrated fpu s) = shelf s"
  "image_data (calibrated fpu s) = image_data s"
  "temperature_data (calibrated fpu s) = temperature_data s"
  "n_zero_value_drop_frame (calibrated fpu s) = n_zero_value_drop_frame s"
  "autoRangeMin (calibrated fpu s) = autoRangeMin s"
  "autoRangeMax (calibrated fpu s) = autoRangeMax s"
  "thermal_pub (calibrated fpu s) = thermal_pub s"
  "img_pub (calibrated fpu s) = img_pub s"
  "sock_closed (calibrated fpu s) = sock_closed s"
  by (simp_all add: calibrated_def)

lemma wf_calibrated: "wf s \<Longrightarrow> wf (calibrated fpu s)"
  by (simp add: wf_def)

lemma calibrate_pure:
  assumes "wf s"
  shows "(if autoRangeMin s \<or> autoRangeMax s then auto_range fpu s else Inr s)
         = Inr (calibrated fpu s)"
  using auto_range_pure [OF assms, of fpu] by (simp add: calibrated_def)

lemma process_data_pure:
  assumes "wf s"
  shows "process_data fpu s
         = Inr (publish
                 ((calibrated fpu s)
                    \<lparr>image_data :=
                       fold (put_image fpu (calibrated fpu s)) (decoded_pairs (shelf s) [1..<5])
                         (image_data s),
                     temperature_data :=
                       fold (put_temp fpu (calibrated fpu s)) (decoded_pairs (shelf s) [1..<5])
                         (temperature_data s),
                     n_zero_value_drop_frame := 0\<rparr>))"
proof -
  let ?b = "calibrated fpu s"
  have wfb: "wf ?b" using assms by (rule wf_calibrated)
  have ks: "\<forall>k\<in>set [1..<5]. 1 \<le> k \<and> k \<le> 4"
    by auto
  have li: "length (image_data s) = 57600" and lt: "length (temperature_data s) = 19200"
    using assms by (simp_all add: wf_def)
  have b: "?b = ?b\<lparr>image_data := image_data s, temperature_data := temperature_data s,
                    n_zero_value_drop_frame := n_zero_value_drop_frame s\<rparr>"
    by (simp add: calibrated_def)
  have dec: "decode_segments fpu [1..<5] ?b
         = Inr (?b\<lparr>image_data := fold (put_image fpu ?b) (decoded_pairs (shelf ?b) [1..<5]) (image_data s),
                   temperature_data := fold (put_temp fpu ?b) (decoded_pairs (shelf ?b) [1..<5]) (temperature_data s),
                   n_zero_value_drop_frame :=
                     n_zero_value_drop_frame s
                       + of_nat (length (filter (\<lambda>k. zero_hit (shelf ?b) k [0..<4920]) [1..<5]))\<rparr>)"
    by (subst b) (rule decode_segments_pure [OF wfb ks li lt])
  show ?thesis
    unfolding process_data_def calibrate_pure [OF assms] sum.case dec
    by (simp del: upt_rec_numeral)
qed

section \<open>The grid cell of a position\<close>

lemma cell_nat:
  assumes "1 \<le> k" "k \<le> 4" "i < 4920" "2 \<le> i mod 82"
  shows "cell k i = (i div 164 + 30 * (k - 1)) * 160 + (i mod 82 - 2 + 80 * ((i mod 164) div 82))"
proof -
  have r: "dest_row k i = int (i div 164 + 30 * (k - 1))"
    using assms(1) by (simp add: dest_row_def zdiv_zmult2_eq zdiv_int of_nat_diff)
  have c: "dest_column i = int (i mod 82 - 2 + 80 * ((i mod 164) div 82))"
    using assms(4) by (simp add: dest_column_def myImageWidth_def zdiv_int zmod_int of_nat_diff)
  have "dest_row k i * myImageWidth + dest_column i
          = int ((i div 164 + 30 * (k - 1)) * 160 + (i mod 82 - 2 + 80 * ((i mod 164) div 82)))"
    unfolding r c myImageWidth_def by simp
  then show ?thesis
    unfolding cell_def by (simp only: nat_int)
qed

lemma position_split: "(i::nat) = 164 * (i div 164) + 82 * ((i mod 164) div 82) + i mod 82"
proof -
  have "i mod 164 mod 82 = i mod 82"
    by (simp add: mod_mod_cancel)
  then have "i mod 164 = 82 * ((i mod 164) div 82) + i mod 82"
    by (metis mult_div_mod_eq)
  then show ?thesis
    by (metis add.assoc mult_div_mod_eq)
qed

lemma mixed_radix:
  fixes m :: nat
  assumes "x * m + y = x' * m + y'" and "y < m" and "y' < m"
  shows "x = x' \<and> y = y'"
proof -
  have "(x * m + y) div m = x" "(x' * m + y') div m = x'"
    using assms(2,3) by simp_all
  then have "x = x'" using assms(1) by simp
  then show ?thesis using assms(1) by simp
qed

lemma cell_inj:
  assumes "1 \<le> k" "k \<le> 4" "i < 4920" "2 \<le> i mod 82"
    and "1 \<le> k'" "k' \<le> 4" "i' < 4920" "2 \<le> i' mod 82"
    and eq: "cell k i = cell k' i'"
  shows "k = k' \<and> i = i'"
proof -
  define a where "a j = j mod 82 - 2" for j :: nat
  define b where "b j = (j mod 164) div 82" for j :: nat
  define d where "d j = j div 164" for j :: nat
  have a80: "a j < 80" if "2 \<le> j mod 82" for j
  proof -
    have "j mod 82 < 82" by simp
    then show ?thesis unfolding a_def by linarith
  qed
  have b1: "b j \<le> 1" for j
    unfolding b_def by simp
  have d30: "d i < 30" "d i' < 30"
    using assms(3,7) by (simp_all add: d_def)
  have e: "(d i + 30 * (k - 1)) * 160 + (a i + 80 * b i)
           = (d i' + 30 * (k' - 1)) * 160 + (a i' + 80 * b i')"
    using eq cell_nat [OF assms(1-4)] cell_nat [OF assms(5-8)] by (simp add: a_def b_def d_def)
  have c160: "a i + 80 * b i < 160" "a i' + 80 * b i' < 160"
    using a80 [OF assms(4)] a80 [OF assms(8)] b1 [of i] b1 [of i'] by linarith+
  have rc: "d i + 30 * (k - 1) = d i' + 30 * (k' - 1) \<and> a i + 80 * b i = a i' + 80 * b i'"
    using e c160 by (rule mixed_radix)
  have "(k - 1) * 30 + d i = (k' - 1) * 30 + d i'"
    using rc by simp
  then have kd: "k - 1 = k' - 1 \<and> d i = d i'"
    using d30 by (rule mixed_radix)
  have kk: "k = k'"
    using kd assms(1,5) by linarith
  have d164: "d i = d i'"
    using kd by simp
  have "b i * 80 + a i = b i' * 80 + a i'"
    using rc by simp
  then have ba: "b i = b i' \<and> a i = a i'"
    using a80 [OF assms(4)] a80 [OF assms(8)] by (rule mixed_radix)
  have aa: "a i = a i'" and bb: "b i = b i'"
    using ba by simp_all
  have m82: "i mod 82 = i' mod 82"
    using aa assms(4,8) unfolding a_def by linarith
  have "i = i'"
    using position_split [of i] position_split [of i'] d164 bb m82 unfolding b_def d_def by simp
  with kk show ?thesis by simp
qed

section \<open>The positions that are converted\<close>

lemma set_takeWhile_sorted:
  fixes xs :: "nat list"
  assumes "sorted xs" and "distinct xs"
  shows "x \<in> set (takeWhile P xs) \<longleftrightarrow> x \<in> set xs \<and> (\<forall>y\<in>set xs. y \<le> x \<longrightarrow> P y)"
  using assms
proof (induction xs)
  case Nil
  then show ?case by simp
next
  case (Cons a xs)
  then have ih: "x \<in> set (takeWhile P xs) \<longleftrightarrow> x \<in> set xs \<and> (\<forall>y\<in>set xs. y \<le> x \<longrightarrow> P y)"
    by simp
  have low: "\<forall>y\<in>set xs. a < y"
    using Cons.prems by (auto simp: le_less)
  show ?case
  proof (cases "P a")
    case True
    then show ?thesis using ih low by auto
  next
    case False
    then show ?thesis using low by (auto simp: less_imp_le)
  qed
qed

lemma decoded_positions_mem:
  "i \<in> set (decoded_positions buffers k [0..<n]) \<longleftrightarrow>
     i < n \<and> \<not> i mod 82 < 2 \<and> (\<forall>j\<le>i. \<not> j mod 82 < 2 \<longrightarrow> raw_sample buffers k j \<noteq> 0)"
proof -
  have s: "sorted (filter (\<lambda>i. \<not> i mod 82 < 2) [0..<n])"
    and d: "distinct (filter (\<lambda>i. \<not> i mod 82 < 2) [0..<n])"
    by (simp_all add: sorted_wrt_filter del: upt_rec_numeral)
  show ?thesis
    unfolding decoded_positions_def set_takeWhile_sorted [OF s d]
    by (auto simp del: upt_rec_numeral)
qed

lemma decoded_pairs_mem:
  "(k, i) \<in> set (decoded_pairs buffers ks) \<longleftrightarrow>
     k \<in> set ks \<and> i \<in> set (decoded_positions buffers k [0..<4920])"
  by (auto simp: decoded_pairs_def simp del: upt_rec_numeral)

lemma fold_put_temp_nth:
  assumes "(k, i) \<in> set ps"
    and "\<forall>q\<in>set ps. cell (fst q) (snd q) = cell k i \<longrightarrow> q = (k, i)"
    and "cell k i < length tm"
  shows "fold (put_temp fpu b) ps tm ! cell k i = f_temp fpu (raw_sample (shelf b) k i)"
  using assms(1,2)
proof (induction ps rule: rev_induct)
  case Nil
  then show ?case by simp
next
  case (snoc q ps)
  obtain k' i' where q: "q = (k', i')" by (cases q)
  have rest: "\<forall>q\<in>set ps. cell (fst q) (snd q) = cell k i \<longrightarrow> q = (k, i)"
    using snoc.prems(2) by simp
  have step: "fold (put_temp fpu b) (ps @ [q]) tm
               = (fold (put_temp fpu b) ps tm)[cell k' i' := f_temp fpu (raw_sample (shelf b) k' i')]"
    by (simp add: q)
  show ?case
  proof (cases "q = (k, i)")
    case True
    then have "k' = k" "i' = i" using q by simp_all
    then show ?thesis unfolding step using assms(3) by simp
  next
    case False
    have "cell (fst q) (snd q) = cell k i \<longrightarrow> q = (k, i)"
      using snoc.prems(2) by simp
    then have ne: "cell k' i' \<noteq> cell k i" using False q by auto
    have "(k, i) \<in> set ps" using snoc.prems(1) False by simp
    then have "fold (put_temp fpu b) ps tm ! cell k i = f_temp fpu (raw_sample (shelf b) k i)"
      using rest by (rule snoc.IH)
    then show ?thesis unfolding step using ne by simp
  qed
qed

lemma fold_put_image_nth:
  assumes "(k, i) \<in> set ps"
    and "\<forall>q\<in>set ps. cell (fst q) (snd q) = cell k i \<longrightarrow> q = (k, i)"
    and "cell k i * 3 + 2 < length img"
  shows "fold (put_image fpu b) ps img ! (cell k i * 3)
           = palette_byte (intensity fpu b (raw_sample (shelf b) k i)) 2
       \<and> fold (put_image fpu b) ps img ! (cell k i * 3 + 1)
           = palette_byte (intensity fpu b (raw_sample (shelf b) k i)) 1
       \<and> fold (put_image fpu b) ps img ! (cell k i * 3 + 2)
           = palette_byte (intensity fpu b (raw_sample (shelf b) k i)) 0"
  using assms(1,2)
proof (induction ps rule: rev_induct)
  case Nil
  then show ?case by simp
next
  case (snoc q ps)
  obtain k' i' where q: "q = (k', i')" by (cases q)
  have rest: "\<forall>q\<in>set ps. cell (fst q) (snd q) = cell k i \<longrightarrow> q = (k, i)"
    using snoc.prems(2) by simp
  let ?img = "fold (put_image fpu b) ps img"
  have len: "length ?img = length img"
    by simp
  have step: "fold (put_image fpu b) (ps @ [q]) img
               = ?img[cell k' i' * 3 := palette_byte (intensity fpu b (raw_sample (shelf b) k' i')) 2,
                      cell k' i' * 3 + 1 := palette_byte (intensity fpu b (raw_sample (shelf b) k' i')) 1,
                      cell k' i' * 3 + 2 := palette_byte (intensity fpu b (raw_sample (shelf b) k' i')) 0]"
    by (simp add: q)
  show ?case
  proof (cases "q = (k, i)")
    case True
    then have "k' = k" "i' = i" using q by simp_all
    then show ?thesis unfolding step using assms(3) len by simp
  next
    case False
    have "cell (fst q) (snd q) = cell k i \<longrightarrow> q = (k, i)"
      using snoc.prems(2) by simp
    then have ne: "cell k' i' \<noteq> cell k i" using False q by auto
    have "(k, i) \<in> set ps" using snoc.prems(1) False by simp
    then have ih: "?img ! (cell k i * 3)
           = palette_byte (intensity fpu b (raw_sample (shelf b) k i)) 2
       \<and> ?img ! (cell k i * 3 + 1)
           = palette_byte (intensity fpu b (raw_sample (shelf b) k i)) 1
       \<and> ?img ! (cell k i * 3 + 2)
           = palette_byte (intensity fpu b (raw_sample (shelf b) k i)) 0"
      using rest by (rule snoc.IH)
    have d: "cell k' i' * 3 + m \<noteq> cell k i * 3 + n" if "m < 3" "n < 3" for m n :: nat
      using ne that by presburger
    have u: "xs[cell k' i' * 3 := x, cell k' i' * 3 + 1 := y, cell k' i' * 3 + 2 := z] ! (cell k i * 3 + n)
             = xs ! (cell k i * 3 + n)" if "n < 3" for xs :: "8 word list" and x y z n
      using d [of 0 n] d [of 1 n] d [of 2 n] that by simp
    show ?thesis unfolding step using ih u [of 0] u [of 1] u [of 2] by simp
  qed
qed

section \<open>The start-up state on a flat frame\<close>

lemma wf_flat_state: "wf (flat_state x)"
  unfolding flat_state_def
  by (rule wf_initial) (simp_all add: flat_frame_def list_all_length)

lemma flat_state_fields:
  "autoRangeMin (flat_state x) = False"
  "autoRangeMax (flat_state x) = False"
  "minValue (flat_state x) = 27300"
  "maxValue (flat_state x) = 31500"
  "diff (flat_state x) = 4200"
  "scale (flat_state x) = 255 / 4200"
  "shelf (flat_state x) = flat_frame x"
  "n_zero_value_drop_frame (flat_state x) = 0"
  "thermal_pub (flat_state x) = []"
  "img_pub (flat_state x) = []"
  "sock_closed (flat_state x) = False"
  by (simp_all add: flat_state_def initial_def exact_fpu_def rangeMin_def rangeMax_def)

lemma raw_sample_flat:
  assumes "1 \<le> k" "k \<le> 4" "i < 4920"
  shows "raw_sample (flat_frame x) k i = word_of_int (push_bit 8 (uint x) + uint x)"
  using assms by (simp add: raw_sample_def flat_frame_def)

section \<open>The fixed range\<close>

text \<open>
  Claim C9. When both auto-range flags are off, \<^verbatim>\<open>process_data\<close> returns for every
  well-formed state, whatever the frame holds, and the calibration \<open>minValue\<close>,
  \<open>maxValue\<close>, \<open>diff\<close>, \<open>scale\<close> of the state it returns is the one it was given:
  nothing in the frame alters the range. The scan is not run: \<^verbatim>\<open>process_data\<close> is
  the decoding pass on the given state, followed by the reset of the counter and the
  publication.
\<close>

theorem fixed_range_unchanged:
  assumes "wf s" and "\<not> autoRangeMin s" and "\<not> autoRangeMax s"
  shows "(\<exists>s'. process_data fpu s = Inr s' \<and> minValue s' = minValue s \<and> maxValue s' = maxValue s
            \<and> diff s' = diff s \<and> scale s' = scale s)
       \<and> process_data fpu s
           = (case decode_segments fpu [1..<5] s of
                Inl e \<Rightarrow> Inl e
              | Inr s2 \<Rightarrow>
                  Inr (publish (if n_zero_value_drop_frame s2 \<noteq> 0
                                then s2\<lparr>n_zero_value_drop_frame := 0\<rparr> else s2)))"
proof -
  have "\<exists>s'. process_data fpu s = Inr s' \<and> minValue s' = minValue s \<and> maxValue s' = maxValue s
            \<and> diff s' = diff s \<and> scale s' = scale s"
    using assms(2,3) by (simp add: process_data_pure [OF assms(1)] calibrated_def publish_def)
  moreover have "process_data fpu s
           = (case decode_segments fpu [1..<5] s of
                Inl e \<Rightarrow> Inl e
              | Inr s2 \<Rightarrow>
                  Inr (publish (if n_zero_value_drop_frame s2 \<noteq> 0
                                then s2\<lparr>n_zero_value_drop_frame := 0\<rparr> else s2)))"
    using assms(2,3) by (simp add: process_data_def)
  ultimately show ?thesis by blast
qed

theorem fixed_range_unchanged_witness:
  "wf (flat_state 117) \<and> \<not> autoRangeMin (flat_state 117) \<and> \<not> autoRangeMax (flat_state 117)
   \<and> (\<exists>s'. process_data exact_fpu (flat_state 117) = Inr s' \<and> minValue s' = 27300
          \<and> maxValue s' = 31500 \<and> diff s' = 4200 \<and> scale s' = 255 / 4200)"
proof -
  have w: "wf (flat_state 117)" by (rule wf_flat_state)
  have a: "\<not> autoRangeMin (flat_state 117)" and b: "\<not> autoRangeMax (flat_state 117)"
    by (simp_all add: flat_state_fields)
  from fixed_range_unchanged [OF w a b, of exact_fpu]
  have "\<exists>s'. process_data exact_fpu (flat_state 117) = Inr s'
          \<and> minValue s' = minValue (flat_state 117) \<and> maxValue s' = maxValue (flat_state 117)
          \<and> diff s' = diff (flat_state 117) \<and> scale s' = scale (flat_state 117)"
    by blast
  then show ?thesis
    using w a b by (simp only: flat_state_fields)
qed

section \<open>Accesses stay inside the buffers\<close>

text \<open>
  Claim C10. With 4 segments of 4920 positions, rows of 82 positions and a grid of 160
  by 120, \<^verbatim>\<open>process_data\<close> never accesses a buffer outside its bounds: it returns a
  state and not \<open>OutOfBounds\<close>. For every position outside the headers the column is in
  0..159 and the row in 0..119, so that the test before the stores always succeeds; the
  image indices \<open>(row * 160 + column) * 3 + 0..2\<close> and the temperature index
  \<open>row * 160 + column\<close> are inside the two vectors, and the byte index \<open>i * 2 + 1\<close> is at
  most 9839, inside every segment buffer.
\<close>

theorem decode_within_bounds:
  assumes "wf s"
  shows "(\<exists>s'. process_data fpu s = Inr s' \<and> wf s')
       \<and> (\<forall>iSegment\<in>{1..4}. \<forall>i<4920. \<not> i mod 82 < 2 \<longrightarrow>
            0 \<le> dest_column i \<and> dest_column i < myImageWidth
          \<and> 0 \<le> dest_row iSegment i \<and> dest_row iSegment i < myImageHeight
          \<and> 0 \<le> (dest_row iSegment i * myImageWidth + dest_column i) * 3
          \<and> (dest_row iSegment i * myImageWidth + dest_column i) * 3 + 2
               < int (length (image_data s))
          \<and> 0 \<le> dest_row iSegment i * myImageWidth + dest_column i
          \<and> dest_row iSegment i * myImageWidth + dest_column i < int (length (temperature_data s))
          \<and> int i * 2 + 1 \<le> 9839
          \<and> list_all (\<lambda>seg. int i * 2 + 1 < int (length seg)) (shelf s))"
proof -
  have li: "length (image_data s) = 57600" and lt: "length (temperature_data s) = 19200"
    and ls: "list_all (\<lambda>seg. length seg = 9840) (shelf s)"
    using assms by (simp_all add: wf_def)
  have "wf s'" if "process_data fpu s = Inr s'" for s'
    using that assms unfolding process_data_pure [OF assms]
    by (auto simp: wf_def publish_def)
  then have run: "\<exists>s'. process_data fpu s = Inr s' \<and> wf s'"
    by (simp add: process_data_pure [OF assms])
  have pos: "0 \<le> dest_column i \<and> dest_column i < myImageWidth
          \<and> 0 \<le> dest_row k i \<and> dest_row k i < myImageHeight
          \<and> 0 \<le> (dest_row k i * myImageWidth + dest_column i) * 3
          \<and> (dest_row k i * myImageWidth + dest_column i) * 3 + 2 < int (length (image_data s))
          \<and> 0 \<le> dest_row k i * myImageWidth + dest_column i
          \<and> dest_row k i * myImageWidth + dest_column i < int (length (temperature_data s))
          \<and> int i * 2 + 1 \<le> 9839
          \<and> list_all (\<lambda>seg. int i * 2 + 1 < int (length seg)) (shelf s)"
    if "k \<in> {1..4}" "i < 4920" "\<not> i mod 82 < 2" for k i
  proof -
    have k: "1 \<le> k" "k \<le> 4" and h: "2 \<le> i mod 82"
      using that by simp_all
    note c = dest_column_bounds [OF h]
    note r = dest_row_bounds [OF k that(2)]
    note ce = cell_eq [OF k that(2) h]
    have e: "dest_row k i * myImageWidth + dest_column i = int (cell k i)"
      by (simp add: ce(1))
    have "list_all (\<lambda>seg. int i * 2 + 1 < int (length seg)) (shelf s)"
      using ls that(2) by (simp add: list_all_iff)
    then show ?thesis
      unfolding e li lt using c r ce(2) that(2)
      by (simp add: myImageWidth_def myImageHeight_def)
  qed
  show ?thesis
    using run pos by blast
qed

theorem decode_within_bounds_witness:
  "wf (flat_state 117) \<and> (\<exists>s'. process_data exact_fpu (flat_state 117) = Inr s' \<and> wf s')
   \<and> (4::nat) \<in> {1..4} \<and> (4919::nat) < 4920 \<and> \<not> (4919::nat) mod 82 < 2
   \<and> dest_column 4919 = 159 \<and> dest_column 4919 < myImageWidth
   \<and> dest_row 4 4919 = 119 \<and> dest_row 4 4919 < myImageHeight
   \<and> (dest_row 4 4919 * myImageWidth + dest_column 4919) * 3 + 2 = 57599
   \<and> (dest_row 4 4919 * myImageWidth + dest_column 4919) * 3 + 2
        < int (length (image_data (flat_state 117)))
   \<and> dest_row 4 4919 * myImageWidth + dest_column 4919
        < int (length (temperature_data (flat_state 117)))
   \<and> int 4919 * 2 + 1 \<le> 9839"
proof -
  have w: "wf (flat_state 117)" by (rule wf_flat_state)
  have v: "dest_column 4919 = 159" "dest_row 4 4919 = 119" "myImageWidth = 160"
    by (simp_all add: dest_column_def dest_row_def myImageWidth_def)
  have h: "(4::nat) \<in> {1..4}" "(4919::nat) < 4920" "\<not> (4919::nat) mod 82 < 2"
    by simp_all
  from decode_within_bounds [OF w, of exact_fpu]
  have run: "\<exists>s'. process_data exact_fpu (flat_state 117) = Inr s' \<and> wf s'"
    and pos: "\<forall>iSegment\<in>{1..4}. \<forall>i<4920. \<not> i mod 82 < 2 \<longrightarrow>
            0 \<le> dest_column i \<and> dest_column i < myImageWidth
          \<and> 0 \<le> dest_row iSegment i \<and> dest_row iSegment i < myImageHeight
          \<and> 0 \<le> (dest_row iSegment i * myImageWidth + dest_column i) * 3
          \<and> (dest_row iSegment i * myImageWidth + dest_column i) * 3 + 2
               < int (length (image_data (flat_state 117)))
          \<and> 0 \<le> dest_row iSegment i * myImageWidth + dest_column i
          \<and> dest_row iSegment i * myImageWidth + dest_column i
               < int (length (temperature_data (flat_state 117)))
          \<and> int i * 2 + 1 \<le> 9839
          \<and> list_all (\<lambda>seg. int i * 2 + 1 < int (length seg)) (shelf (flat_state 117))"
    by blast+
  from pos h have at: "0 \<le> dest_column 4919 \<and> dest_column 4919 < myImageWidth
          \<and> 0 \<le> dest_row 4 4919 \<and> dest_row 4 4919 < myImageHeight
          \<and> 0 \<le> (dest_row 4 4919 * myImageWidth + dest_column 4919) * 3
          \<and> (dest_row 4 4919 * myImageWidth + dest_column 4919) * 3 + 2
               < int (length (image_data (flat_state 117)))
          \<and> 0 \<le> dest_row 4 4919 * myImageWidth + dest_column 4919
          \<and> dest_row 4 4919 * myImageWidth + dest_column 4919
               < int (length (temperature_data (flat_state 117)))
          \<and> int 4919 * 2 + 1 \<le> 9839
          \<and> list_all (\<lambda>seg. int 4919 * 2 + 1 < int (length seg)) (shelf (flat_state 117))"
    by blast
  have n: "(dest_row 4 4919 * myImageWidth + dest_column 4919) * 3 + 2 = 57599"
    by (simp add: v)
  show ?thesis
    using w run h at v(1,2) n by blast
qed

section \<open>The palette lookup\<close>

lemma colormap_tail:
  "colormap_ironblack ! 765 = 255" "colormap_ironblack ! 766 = 255"
  "colormap_ironblack ! 767 = 24" "colormap_ironblack ! 768 = - 1"
  by (simp_all add: colormap_ironblack_def)

text \<open>
  Claim C5 says that a clamped channel offset yields a byte of the last triplet of the
  table and that the final entry \<open>-1\<close> is never read. It fails: for the palette index 256
  the offset of the first channel is 768 without clamping, the offset 769 of the second is
  clamped to 768, and so is every offset of the index 31500; index 768 of the table holds
  \<open>-1\<close>, stored as the byte 255.
\<close>

theorem palette_sentinel_read:
  "channel_ofs 256 0 = 768 \<and> channel_ofs 256 1 = 768 \<and> channel_ofs 31500 2 = 768
   \<and> rd colormap_ironblack 768 = Inr (- 1) \<and> palette_byte 256 1 = 255"
  by (simp add: channel_ofs_def selectedColormapSize_eq rd_def length_colormap colormap_tail
      palette_byte_def)

text \<open>
  Claim C5, amended. For each of the three channels the offset read is inside the table,
  so nothing behind the table is read. For a palette index up to 255 it is the offset
  \<open>3 * index + channel\<close>, at most 767, an entry of one of the 256 triplets; for the index
  255 these are the offsets 765, 766 and 767 of the last triplet, which holds 255, 255,
  24. For a palette index of 256 or more the offset is 768, the last index of the table,
  where the table holds \<open>-1\<close>: the byte stored is 255.
\<close>

theorem palette_lookup:
  assumes "c \<in> {0, 1, 2}"
  shows "0 \<le> channel_ofs val c \<and> channel_ofs val c < int (length colormap_ironblack)
       \<and> (uint val \<le> 255 \<longrightarrow> channel_ofs val c = 3 * uint val + c \<and> channel_ofs val c \<le> 767)
       \<and> (256 \<le> uint val \<longrightarrow> channel_ofs val c = 768
             \<and> colormap_ironblack ! nat (channel_ofs val c) = - 1 \<and> palette_byte val c = 255)
       \<and> channel_ofs 255 0 = 765 \<and> channel_ofs 255 1 = 766 \<and> channel_ofs 255 2 = 767
       \<and> colormap_ironblack ! 765 = 255 \<and> colormap_ironblack ! 766 = 255
       \<and> colormap_ironblack ! 767 = 24"
proof -
  have a: "0 \<le> channel_ofs val c \<and> channel_ofs val c < int (length colormap_ironblack)"
    using channel_ofs_bounds [OF assms, of val] by (simp add: length_colormap)
  have b: "channel_ofs val c = 3 * uint val + c \<and> channel_ofs val c \<le> 767" if "uint val \<le> 255"
    using that assms by (auto simp: channel_ofs_def selectedColormapSize_eq Let_def)
  have o: "channel_ofs val c = 768" if "256 \<le> uint val"
    using that assms by (auto simp: channel_ofs_def selectedColormapSize_eq Let_def)
  have d: "colormap_ironblack ! nat (channel_ofs val c) = - 1 \<and> palette_byte val c = 255"
    if "256 \<le> uint val"
    by (simp add: o [OF that] palette_byte_def colormap_tail)
  have e: "channel_ofs 255 0 = 765 \<and> channel_ofs 255 1 = 766 \<and> channel_ofs 255 2 = 767"
    by (simp add: channel_ofs_def selectedColormapSize_eq)
  show ?thesis
    using a b o d e colormap_tail by blast
qed

theorem palette_lookup_witness:
  "(1::int) \<in> {0, 1, 2} \<and> uint (255 :: 16 word) \<le> 255 \<and> 256 \<le> uint (27300 :: 16 word)
   \<and> channel_ofs 255 1 = 766 \<and> colormap_ironblack ! nat (channel_ofs 255 1) = 255
   \<and> channel_ofs 27300 1 = 768 \<and> colormap_ironblack ! nat (channel_ofs 27300 1) = - 1
   \<and> palette_byte 27300 1 = 255"
proof -
  have c: "(1::int) \<in> {0, 1, 2}" by simp
  have u: "uint (255 :: 16 word) \<le> 255" "256 \<le> uint (27300 :: 16 word)" by simp_all
  from palette_lookup [OF c, of 255] u(1)
  have lo: "channel_ofs 255 1 = 766" "colormap_ironblack ! 766 = 255"
    by simp_all
  from palette_lookup [OF c, of 27300] u(2)
  have hi: "channel_ofs 27300 1 = 768" "colormap_ironblack ! nat (channel_ofs 27300 1) = - 1"
    "palette_byte 27300 1 = 255"
    by blast+
  show ?thesis
    using c u lo hi by simp
qed

section \<open>The clamped intensity\<close>

text \<open>
  Claim C2 expects the palette index 0 for a sample at or below the configured minimum and
  255 for a sample above the configured maximum, with the flags off. In the source the two
  clamping branches assign the bound itself, a raw sensor value, where the third branch
  assigns a scaled value. At start-up (range 27300 to 31500, both flags off) the sample
  27000 gets the index 27300 and the sample 32000 the index 31500; both are sent to the
  offset 768 by the palette lookup.
\<close>

theorem intensity_clamp_raw:
  "intensity exact_fpu (flat_state 0) 27000 = 27300
   \<and> intensity exact_fpu (flat_state 0) 32000 = 31500
   \<and> channel_ofs (intensity exact_fpu (flat_state 0) 27000) 0 = 768
   \<and> channel_ofs (intensity exact_fpu (flat_state 0) 32000) 0 = 768"
  by (simp add: intensity_def flat_state_fields channel_ofs_def selectedColormapSize_eq)

section \<open>The bounds found by the auto-ranging pass\<close>








lemma wf_flags [simp]:
  "wf (s\<lparr>autoRangeMax := x\<rparr>) = wf s" "wf (s\<lparr>autoRangeMin := x\<rparr>) = wf s"
  "wf (s\<lparr>maxValue := v\<rparr>) = wf s" "wf (s\<lparr>minValue := v\<rparr>) = wf s"
  by (simp_all add: wf_def)


section \<open>A zero sample\<close>

lemma decoded_positions_first_zero:
  assumes "i < n" and "\<not> i mod 82 < 2" and "raw_sample buffers k i = 0"
    and "\<forall>j<i. \<not> j mod 82 < 2 \<longrightarrow> raw_sample buffers k j \<noteq> 0"
  shows "decoded_positions buffers k [0..<n] = decoded_positions buffers k [0..<i]"
    and "zero_hit buffers k [0..<n]" and "\<not> zero_hit buffers k [0..<i]"
proof -
  have "[0..<i + (n - i)] = [0..<i] @ [i..<i + (n - i)]"
    by (rule upt_add_eq_append) simp
  moreover have "[i..<n] = i # [Suc i..<n]"
    using assms(1) by (rule upt_conv_Cons)
  ultimately have split: "[0..<n] = [0..<i] @ i # [Suc i..<n]"
    using assms(1) by simp
  have all: "\<forall>j\<in>set (filter (\<lambda>i. \<not> i mod 82 < 2) [0..<i]). raw_sample buffers k j \<noteq> 0"
    using assms(4) by (simp del: upt_rec_numeral)
  have f: "filter (\<lambda>i. \<not> i mod 82 < 2) [0..<n]
           = filter (\<lambda>i. \<not> i mod 82 < 2) [0..<i] @ i # filter (\<lambda>i. \<not> i mod 82 < 2) [Suc i..<n]"
    unfolding split using assms(2) by simp
  have "takeWhile (\<lambda>i. raw_sample buffers k i \<noteq> 0)
          (filter (\<lambda>i. \<not> i mod 82 < 2) [0..<i] @ i # filter (\<lambda>i. \<not> i mod 82 < 2) [Suc i..<n])
        = filter (\<lambda>i. \<not> i mod 82 < 2) [0..<i]
            @ takeWhile (\<lambda>i. raw_sample buffers k i \<noteq> 0)
                (i # filter (\<lambda>i. \<not> i mod 82 < 2) [Suc i..<n])"
    by (rule takeWhile_append2) (use all in blast)
  then have "decoded_positions buffers k [0..<n] = filter (\<lambda>i. \<not> i mod 82 < 2) [0..<i]"
    unfolding decoded_positions_def f using assms(3) by simp
  moreover have "decoded_positions buffers k [0..<i] = filter (\<lambda>i. \<not> i mod 82 < 2) [0..<i]"
    unfolding decoded_positions_def using all by (simp add: takeWhile_eq_all_conv del: upt_rec_numeral)
  ultimately show "decoded_positions buffers k [0..<n] = decoded_positions buffers k [0..<i]"
    by simp
  show "zero_hit buffers k [0..<n]"
    using assms(1-3) by (auto simp: zero_hit_def list_ex_iff simp del: upt_rec_numeral)
  show "\<not> zero_hit buffers k [0..<i]"
    using assms(4) by (auto simp: zero_hit_def list_ex_iff simp del: upt_rec_numeral)
qed

lemma decode_segment_pure':
  assumes "wf s" and "1 \<le> k" and "k \<le> 4" and "n \<le> 4920"
  shows "decode_segment fpu k [0..<n] s
         = Inr (s\<lparr>image_data :=
                     fold (put_image fpu s) (map (Pair k) (decoded_positions (shelf s) k [0..<n]))
                       (image_data s),
                   temperature_data :=
                     fold (put_temp fpu s) (map (Pair k) (decoded_positions (shelf s) k [0..<n]))
                       (temperature_data s),
                   n_zero_value_drop_frame :=
                     (if zero_hit (shelf s) k [0..<n] then n_zero_value_drop_frame s + 1
                      else n_zero_value_drop_frame s)\<rparr>)"
proof -
  have pos: "\<forall>i\<in>set [0..<n]. i < 4920"
    using assms(4) by (simp del: upt_rec_numeral)
  have li: "length (image_data s) = 57600" and lt: "length (temperature_data s) = 19200"
    using assms(1) by (simp_all add: wf_def)
  have s: "s = s\<lparr>image_data := image_data s, temperature_data := temperature_data s,
                  n_zero_value_drop_frame := n_zero_value_drop_frame s\<rparr>"
    by simp
  show ?thesis
    by (subst s) (rule decode_segment_pure [OF assms(1-3) pos li lt])
qed

lemma decoded_positions_zero:
  assumes "raw_sample buffers k 2 = 0"
  shows "decoded_positions buffers k [0..<4920] = []" and "zero_hit buffers k [0..<4920]"
proof -
  have "decoded_positions buffers k [0..<4920] = decoded_positions buffers k [0..<2]"
    by (rule decoded_positions_first_zero) (simp_all add: assms)
  then show "decoded_positions buffers k [0..<4920] = []"
    by (simp add: decoded_positions_def)
  show "zero_hit buffers k [0..<4920]"
    by (rule decoded_positions_first_zero [where i = 2]) (simp_all add: assms)
qed


lemma first_sample_zero:
  assumes "wf s" and "1 \<le> k" and "k \<le> 4" and "raw_sample (shelf s) k 2 = 0"
  shows "decode_segment fpu k [0..<4920] s
         = Inr (s\<lparr>n_zero_value_drop_frame := n_zero_value_drop_frame s + 1\<rparr>)"
  unfolding decode_segment_pure' [OF assms(1-3) order_refl] decoded_positions_zero [OF assms(4)]
  using decoded_positions_zero(2) [OF assms(4)] by simp

lemma wf_dented: "wf (dented_state p)"
  using wf_flat_state [of 117]
  by (simp add: wf_def dented_state_def dented_frame_def flat_state_fields flat_frame_def
      list_all_length nth_list_update)

lemma dented_samples:
  assumes "p < 4920" and "i < 4920"
  shows "raw_sample (dented_frame p) 1 i = (if i = p then 0 else 30069)"
proof (cases "i = p")
  case True
  then show ?thesis
    using assms by (simp add: raw_sample_def dented_frame_def flat_frame_def)
next
  case False
  then have "i * 2 \<noteq> p * 2" "i * 2 \<noteq> p * 2 + 1" "i * 2 + 1 \<noteq> p * 2" "i * 2 + 1 \<noteq> p * 2 + 1"
    by presburger+
  then show ?thesis
    using assms False by (simp add: raw_sample_def dented_frame_def flat_frame_def)
qed

lemma dented_fields:
  "shelf (dented_state p) = dented_frame p" "n_zero_value_drop_frame (dented_state p) = 0"
  by (simp_all add: dented_state_def flat_state_fields)

lemma all_zero_segments:
  assumes "wf s" and "\<forall>k\<in>{1..4}. raw_sample (shelf s) k 2 = 0"
  shows "decode_segments fpu [1..<5] s
         = Inr (s\<lparr>n_zero_value_drop_frame := n_zero_value_drop_frame s + 4\<rparr>)"
proof -
  have w: "wf (s\<lparr>n_zero_value_drop_frame := n\<rparr>)" for n
    using assms(1) by (simp add: wf_def)
  have z: "raw_sample (shelf (s\<lparr>n_zero_value_drop_frame := n\<rparr>)) k 2 = 0"
    if "1 \<le> k" "k \<le> 4" for k n
    using assms(2) that by simp
  have one: "decode_segment fpu k [0..<4920] (s\<lparr>n_zero_value_drop_frame := n\<rparr>)
         = Inr (s\<lparr>n_zero_value_drop_frame := n + 1\<rparr>)" if "1 \<le> k" "k \<le> 4" for k n
    using first_sample_zero [OF w that z [OF that], of fpu n] by simp
  have s: "s = s\<lparr>n_zero_value_drop_frame := n_zero_value_drop_frame s\<rparr>"
    by simp
  have l: "[1..<5] = [1, 2, 3, 4]"
    by (simp add: upt_rec)
  have o1: "decode_segment fpu 1 [0..<4920] (s\<lparr>n_zero_value_drop_frame := n\<rparr>)
         = Inr (s\<lparr>n_zero_value_drop_frame := n + 1\<rparr>)"
    and o2: "decode_segment fpu 2 [0..<4920] (s\<lparr>n_zero_value_drop_frame := n\<rparr>)
         = Inr (s\<lparr>n_zero_value_drop_frame := n + 1\<rparr>)"
    and o3: "decode_segment fpu 3 [0..<4920] (s\<lparr>n_zero_value_drop_frame := n\<rparr>)
         = Inr (s\<lparr>n_zero_value_drop_frame := n + 1\<rparr>)"
    and o4: "decode_segment fpu 4 [0..<4920] (s\<lparr>n_zero_value_drop_frame := n\<rparr>)
         = Inr (s\<lparr>n_zero_value_drop_frame := n + 1\<rparr>)" for n
    by (rule one; simp)+
  have gen: "decode_segments fpu [1, 2, 3, 4] (s\<lparr>n_zero_value_drop_frame := n\<rparr>)
         = Inr (s\<lparr>n_zero_value_drop_frame := n + 4\<rparr>)" for n
    unfolding decode_segments.simps
    by (simp only: o1 o2 o3 o4 sum.case) (simp add: add.assoc)
  have "decode_segments fpu [1, 2, 3, 4] s
          = decode_segments fpu [1, 2, 3, 4] (s\<lparr>n_zero_value_drop_frame := n_zero_value_drop_frame s\<rparr>)"
    by (subst s) (rule refl)
  then show ?thesis
    unfolding l gen .
qed

text \<open>
  Claim C3 says that a zero sample abandons the rest of its row only, that decoding goes on
  with the next rows of the segment, and that a frame of zeros counts one drop for each
  abandoned row. It fails. In the frame of bytes 117 with a zero sample at position 2 of
  segment 1, the first sample of the next row, at position 84, is 30069; the loop over
  segment 1 still ends with the state it started from and the counter at 1: nothing of the
  segment is converted. On the frame of zeros, whose 240 rows are all abandoned, the loops
  leave the counter at 4.
\<close>

theorem zero_sample_leaves_segment:
  "raw_sample (dented_frame 2) 1 2 = 0 \<and> raw_sample (dented_frame 2) 1 84 = 30069
   \<and> decode_segment exact_fpu 1 [0..<4920] (dented_state 2)
       = Inr ((dented_state 2)\<lparr>n_zero_value_drop_frame := 1\<rparr>)
   \<and> decode_segments exact_fpu [1..<5] (flat_state 0)
       = Inr ((flat_state 0)\<lparr>n_zero_value_drop_frame := 4\<rparr>)"
proof -
  have d: "raw_sample (dented_frame 2) 1 2 = 0" "raw_sample (dented_frame 2) 1 84 = 30069"
    by (simp_all add: dented_samples del: One_nat_def)
  have a: "decode_segment exact_fpu 1 [0..<4920] (dented_state 2)
       = Inr ((dented_state 2)\<lparr>n_zero_value_drop_frame := 1\<rparr>)"
  proof -
    have z: "raw_sample (shelf (dented_state 2)) 1 2 = 0"
      by (simp only: dented_fields d)
    have "decode_segment exact_fpu 1 [0..<4920] (dented_state 2)
       = Inr ((dented_state 2)\<lparr>n_zero_value_drop_frame :=
                                  n_zero_value_drop_frame (dented_state 2) + 1\<rparr>)"
      by (rule first_sample_zero [OF wf_dented _ _ z]) simp_all
    then show ?thesis
      by (simp only: dented_fields add_0)
  qed
  have z: "\<forall>k\<in>{1..4}. raw_sample (shelf (flat_state 0)) k 2 = 0"
    by (simp add: flat_state_fields raw_sample_flat)
  have b: "decode_segments exact_fpu [1..<5] (flat_state 0)
       = Inr ((flat_state 0)\<lparr>n_zero_value_drop_frame := 4\<rparr>)"
    unfolding all_zero_segments [OF wf_flat_state z] by (simp add: flat_state_fields)
  show ?thesis
    using a b d by blast
qed

text \<open>
  Claim C3, amended. A zero sample counts one drop and abandons the rest of its segment,
  not only the rest of its row. For the first position \<open>i\<close> outside the headers of a
  segment whose sample is zero, the loop over the segment ends in the state that the loop
  over the positions before \<open>i\<close> alone ends in, with the counter raised by one: no position
  after \<open>i\<close> is converted, and decoding goes on with the next segment. On a frame whose
  samples are all zero the counter is raised once for each segment, by 4, no cell of the
  image or of the temperature grid is written, and \<^verbatim>\<open>process_data\<close> ends with the
  counter back at 0.
\<close>

theorem zero_sample_abandons_segment:
  assumes "wf s"
  shows "(\<forall>iSegment\<in>{1..4}. \<forall>i<4920.
            \<not> i mod 82 < 2 \<and> raw_sample (shelf s) iSegment i = 0
            \<and> (\<forall>j<i. \<not> j mod 82 < 2 \<longrightarrow> raw_sample (shelf s) iSegment j \<noteq> 0)
          \<longrightarrow> (\<exists>s'. decode_segment fpu iSegment [0..<i] s = Inr s'
                 \<and> n_zero_value_drop_frame s' = n_zero_value_drop_frame s
                 \<and> decode_segment fpu iSegment [0..<4920] s
                     = Inr (s'\<lparr>n_zero_value_drop_frame := n_zero_value_drop_frame s + 1\<rparr>)))
       \<and> ((\<forall>iSegment\<in>{1..4}. \<forall>i<4920. raw_sample (shelf s) iSegment i = 0)
          \<longrightarrow> decode_segments fpu [1..<5] s
                = Inr (s\<lparr>n_zero_value_drop_frame := n_zero_value_drop_frame s + 4\<rparr>)
              \<and> (\<exists>s'. process_data fpu s = Inr s' \<and> n_zero_value_drop_frame s' = 0
                    \<and> image_data s' = image_data s
                    \<and> temperature_data s' = temperature_data s))"
proof -
  have one: "\<exists>s'. decode_segment fpu k [0..<i] s = Inr s'
                 \<and> n_zero_value_drop_frame s' = n_zero_value_drop_frame s
                 \<and> decode_segment fpu k [0..<4920] s
                     = Inr (s'\<lparr>n_zero_value_drop_frame := n_zero_value_drop_frame s + 1\<rparr>)"
    if k: "k \<in> {1..4}" and i: "i < 4920" and h: "\<not> i mod 82 < 2"
      and z: "raw_sample (shelf s) k i = 0"
      and nz: "\<forall>j<i. \<not> j mod 82 < 2 \<longrightarrow> raw_sample (shelf s) k j \<noteq> 0" for k i
  proof -
    have k': "1 \<le> k" "k \<le> 4" using k by simp_all
    note fz = decoded_positions_first_zero [OF i h z nz]
    have le: "i \<le> 4920" using i by simp
    show ?thesis
      unfolding decode_segment_pure' [OF assms k' le] decode_segment_pure' [OF assms k' order_refl]
        fz(1)
      using fz(2,3) by simp
  qed
  have all: "decode_segments fpu [1..<5] s
                = Inr (s\<lparr>n_zero_value_drop_frame := n_zero_value_drop_frame s + 4\<rparr>)
              \<and> (\<exists>s'. process_data fpu s = Inr s' \<and> n_zero_value_drop_frame s' = 0
                    \<and> image_data s' = image_data s
                    \<and> temperature_data s' = temperature_data s)"
    if z: "\<forall>k\<in>{1..4}. \<forall>i<4920. raw_sample (shelf s) k i = 0"
  proof -
    have z2: "\<forall>k\<in>{1..4}. raw_sample (shelf s) k 2 = 0"
      using z by simp
    have e: "decoded_pairs (shelf s) [1..<5] = []"
      using z2 by (simp add: decoded_pairs_def decoded_positions_zero(1) upt_rec [of 1]
          del: upt_rec_numeral)
    show ?thesis
      unfolding all_zero_segments [OF assms z2] process_data_pure [OF assms] e
      by (simp add: publish_def)
  qed
  show ?thesis
    using one all by blast
qed

theorem zero_sample_abandons_segment_witness:
  "wf (dented_state 3) \<and> (1::nat) \<in> {1..4} \<and> (3::nat) < 4920 \<and> \<not> (3::nat) mod 82 < 2
   \<and> raw_sample (shelf (dented_state 3)) 1 3 = 0
   \<and> raw_sample (shelf (dented_state 3)) 1 2 = 30069
   \<and> (\<exists>s'. decode_segment exact_fpu 1 [0..<3] (dented_state 3) = Inr s'
          \<and> n_zero_value_drop_frame s' = 0
          \<and> decode_segment exact_fpu 1 [0..<4920] (dented_state 3)
              = Inr (s'\<lparr>n_zero_value_drop_frame := 1\<rparr>))
   \<and> wf (flat_state 0) \<and> shelf (flat_state 0) = flat_frame 0
   \<and> decode_segments exact_fpu [1..<5] (flat_state 0)
       = Inr ((flat_state 0)\<lparr>n_zero_value_drop_frame := 4\<rparr>)
   \<and> (\<exists>s'. process_data exact_fpu (flat_state 0) = Inr s' \<and> n_zero_value_drop_frame s' = 0
          \<and> image_data s' = image_data (flat_state 0)
          \<and> temperature_data s' = temperature_data (flat_state 0))"
proof -
  let ?d = "dented_state 3"
  have h: "(1::nat) \<in> {1..4}" "(3::nat) < 4920" "\<not> (3::nat) mod 82 < 2"
    by simp_all
  have z: "raw_sample (shelf ?d) 1 3 = 0" and n2: "raw_sample (shelf ?d) 1 2 = 30069"
    by (simp_all add: dented_fields dented_samples del: One_nat_def)
  have nz: "\<forall>j<3. \<not> j mod 82 < 2 \<longrightarrow> raw_sample (shelf ?d) 1 j \<noteq> 0"
    by (simp add: dented_fields dented_samples del: One_nat_def)
  from zero_sample_abandons_segment [OF wf_dented, of 3 exact_fpu] h z nz
  have p1: "\<exists>s'. decode_segment exact_fpu 1 [0..<3] ?d = Inr s'
          \<and> n_zero_value_drop_frame s' = n_zero_value_drop_frame ?d
          \<and> decode_segment exact_fpu 1 [0..<4920] ?d
              = Inr (s'\<lparr>n_zero_value_drop_frame := n_zero_value_drop_frame ?d + 1\<rparr>)"
    by blast
  have p1': "\<exists>s'. decode_segment exact_fpu 1 [0..<3] ?d = Inr s'
          \<and> n_zero_value_drop_frame s' = 0
          \<and> decode_segment exact_fpu 1 [0..<4920] ?d
              = Inr (s'\<lparr>n_zero_value_drop_frame := 1\<rparr>)"
    using p1 by (simp only: dented_fields add_0)
  have az: "\<forall>iSegment\<in>{1..4}. \<forall>i<4920. raw_sample (shelf (flat_state 0)) iSegment i = 0"
    by (simp add: flat_state_fields raw_sample_flat)
  from zero_sample_abandons_segment [OF wf_flat_state, of 0 exact_fpu] az
  have p2: "decode_segments exact_fpu [1..<5] (flat_state 0)
       = Inr ((flat_state 0)\<lparr>n_zero_value_drop_frame :=
                                n_zero_value_drop_frame (flat_state 0) + 4\<rparr>)"
    and p3: "\<exists>s'. process_data exact_fpu (flat_state 0) = Inr s' \<and> n_zero_value_drop_frame s' = 0
          \<and> image_data s' = image_data (flat_state 0)
          \<and> temperature_data s' = temperature_data (flat_state 0)"
    by blast+
  have p2': "decode_segments exact_fpu [1..<5] (flat_state 0)
       = Inr ((flat_state 0)\<lparr>n_zero_value_drop_frame := 4\<rparr>)"
    using p2 by (simp only: flat_state_fields add_0)
  show ?thesis
    using wf_dented [of 3] h z n2 p1' wf_flat_state [of 0] flat_state_fields(7) [of 0] p2' p3
    by blast
qed

section \<open>What stops the receive loop\<close>

lemma length_store_datagram [simp]: "length (store_datagram buf d) = length buf"
  by (simp add: store_datagram_def Let_def)

lemma store_datagrams_Cons:
  "store_datagrams (k # ks) (d # ds) buffers
     = store_datagrams ks ds (buffers[k := store_datagram (buffers ! k) d])"
  by (simp add: store_datagrams_def)

lemma store_datagrams_Nil [simp]:
  "store_datagrams ks [] buffers = buffers" "store_datagrams [] ds buffers = buffers"
  by (simp_all add: store_datagrams_def)

lemma store_datagrams_sizes:
  "length (store_datagrams ks ds buffers) = length buffers
   \<and> (list_all (\<lambda>seg. length seg = n) buffers
        \<longrightarrow> list_all (\<lambda>seg. length seg = n) (store_datagrams ks ds buffers))"
proof (induction ks arbitrary: ds buffers)
  case Nil
  show ?case by simp
next
  case (Cons k ks)
  show ?case
  proof (cases ds)
    case Nil
    then show ?thesis by simp
  next
    case (Cons d ds')
    have "list_all (\<lambda>seg. length seg = n) (buffers[k := store_datagram (buffers ! k) d])"
      if "list_all (\<lambda>seg. length seg = n) buffers"
      using that by (cases "k < length buffers") (auto simp: list_all_length nth_list_update)
    then show ?thesis
      using Cons.IH [of ds' "buffers[k := store_datagram (buffers ! k) d]"] Cons
      by (simp add: store_datagrams_Cons)
  qed
qed

lemma wf_store_datagrams: "wf s \<Longrightarrow> wf (s\<lparr>shelf := store_datagrams ks ds (shelf s)\<rparr>)"
  using store_datagrams_sizes [of ks ds "shelf s" 9840] by (simp add: wf_def)

lemma receive_segments_ok:
  assumes "\<forall>k\<in>set ks. k < length (shelf s)" and "length ds = length ks"
  shows "receive_segments ks (map Datagram ds @ net) s
         = Inr (s\<lparr>shelf := store_datagrams ks ds (shelf s)\<rparr>, net)"
  using assms
proof (induction ks arbitrary: ds s)
  case Nil
  then show ?case by simp
next
  case (Cons k ks)
  then obtain d ds' where ds: "ds = d # ds'" by (cases ds) auto
  have k: "k < length (shelf s)" using Cons.prems(1) by simp
  let ?s = "s\<lparr>shelf := (shelf s)[k := store_datagram (shelf s ! k) d]\<rparr>"
  have "receive_segments ks (map Datagram ds' @ net) ?s
         = Inr (?s\<lparr>shelf := store_datagrams ks ds' (shelf ?s)\<rparr>, net)"
    using Cons.prems by (intro Cons.IH) (simp_all add: ds)
  then show ?case
    using k by (simp add: ds rd_def wr_def store_datagrams_Cons)
qed

lemma receive_segments_failed:
  assumes "\<forall>k\<in>set ks. k < length (shelf s)" and "length ds < length ks"
  shows "receive_segments ks (map Datagram ds @ RecvFailed # net) s
         = Inl (ReceiveFailed, s\<lparr>shelf := store_datagrams ks ds (shelf s), sock_closed := True\<rparr>)"
  using assms
proof (induction ks arbitrary: ds s)
  case Nil
  then show ?case by simp
next
  case (Cons k ks)
  show ?case
  proof (cases ds)
    case Nil
    then show ?thesis by simp
  next
    case (Cons d ds')
    have k: "k < length (shelf s)" using Cons.prems(1) by simp
    let ?s = "s\<lparr>shelf := (shelf s)[k := store_datagram (shelf s ! k) d]\<rparr>"
    have "receive_segments ks (map Datagram ds' @ RecvFailed # net) ?s
         = Inl (ReceiveFailed,
                ?s\<lparr>shelf := store_datagrams ks ds' (shelf ?s), sock_closed := True\<rparr>)"
      using Cons.prems Cons by (intro Cons.IH) simp_all
    then show ?thesis
      using k by (simp add: Cons rd_def wr_def store_datagrams_Cons)
  qed
qed

lemma frame_failed:
  assumes "wf s" and "length ds < 4"
  shows "temp_data fpu (True # oks) (map Datagram ds @ RecvFailed # net) s
         = (ReceiveFailed,
            s\<lparr>shelf := store_datagrams [0..<4] ds (shelf s), sock_closed := True\<rparr>)"
proof -
  have "length (shelf s) = 4" using assms(1) by (simp add: wf_def)
  then have "receive_segments [0..<4] (map Datagram ds @ RecvFailed # net) s
         = Inl (ReceiveFailed,
                s\<lparr>shelf := store_datagrams [0..<4] ds (shelf s), sock_closed := True\<rparr>)"
    using assms(2) by (intro receive_segments_failed) simp_all
  then show ?thesis by (simp del: upt_rec_numeral)
qed

lemma frame_received:
  assumes "wf s" and "length ds = 4"
  shows "\<exists>s'. process_data fpu (s\<lparr>shelf := store_datagrams [0..<4] ds (shelf s)\<rparr>) = Inr s'
           \<and> temp_data fpu (True # oks) (map Datagram ds @ net) s = temp_data fpu oks net s'
           \<and> length (img_pub s') = Suc (length (img_pub s))
           \<and> length (thermal_pub s') = Suc (length (thermal_pub s))
           \<and> sock_closed s' = sock_closed s"
proof -
  let ?s = "s\<lparr>shelf := store_datagrams [0..<4] ds (shelf s)\<rparr>"
  have "length (shelf s) = 4" using assms(1) by (simp add: wf_def)
  then have rcv: "receive_segments [0..<4] (map Datagram ds @ net) s = Inr (?s, net)"
    using assms(2) by (intro receive_segments_ok) simp_all
  have w: "wf ?s" using assms(1) by (rule wf_store_datagrams)
  note pd = process_data_pure [OF w, of fpu]
  show ?thesis
    unfolding pd temp_data.simps rcv
    by (simp add: pd publish_def del: upt_rec_numeral)
qed

text \<open>
  Claim C4 says that a read of fewer bytes than the segment size stops the loop and that
  \<^verbatim>\<open>process_data\<close> is not run for that frame. It fails for the short read. With
  datagrams of 3, 0, 0 and 0 bytes and one turn of the loop, \<^verbatim>\<open>temp_data\<close> ends by
  shutdown and not by a failure, the socket is not closed, and one image and one
  temperature message have been published.
\<close>

theorem short_read_is_processed:
  "fst (temp_data exact_fpu [True] [Datagram [1, 2, 3], Datagram [], Datagram [], Datagram []]
         (flat_state 0)) = Shutdown
   \<and> length (img_pub (snd (temp_data exact_fpu [True]
         [Datagram [1, 2, 3], Datagram [], Datagram [], Datagram []] (flat_state 0)))) = 1
   \<and> length (thermal_pub (snd (temp_data exact_fpu [True]
         [Datagram [1, 2, 3], Datagram [], Datagram [], Datagram []] (flat_state 0)))) = 1
   \<and> \<not> sock_closed (snd (temp_data exact_fpu [True]
         [Datagram [1, 2, 3], Datagram [], Datagram [], Datagram []] (flat_state 0)))"
proof -
  have l: "length [[1, 2, 3], [], [], [] :: 8 word list] = 4"
    by simp
  from frame_received [OF wf_flat_state l, of exact_fpu 0 "[]" "[]"]
  obtain s' where "temp_data exact_fpu [True]
         [Datagram [1, 2, 3], Datagram [], Datagram [], Datagram []] (flat_state 0) = (Shutdown, s')"
    and "length (img_pub s') = 1" and "length (thermal_pub s') = 1" and "\<not> sock_closed s'"
    by (auto simp: flat_state_fields)
  then show ?thesis by simp
qed

text \<open>
  Claim C4, amended. Only a negative result of \<^verbatim>\<open>recvfrom\<close> is fatal. If it comes
  after fewer than four datagrams of a frame, \<^verbatim>\<open>temp_data\<close> returns at once with the
  failure: the socket is closed, nothing is published, so \<^verbatim>\<open>process_data\<close> is not run
  for that frame, and neither the later results of \<^verbatim>\<open>recvfrom\<close> nor the later values
  of \<^verbatim>\<open>rclcpp::ok()\<close> are looked at. Four datagrams of any length, also shorter than a
  segment, make a frame: each is stored at the start of its buffer, \<^verbatim>\<open>process_data\<close>
  runs on the buffers and publishes, and the loop goes on.
\<close>

theorem receive_error_is_fatal:
  assumes "wf s"
  shows "(length ds < 4 \<longrightarrow>
            temp_data fpu (True # oks) (map Datagram ds @ RecvFailed # net) s
            = (ReceiveFailed,
               s\<lparr>shelf := store_datagrams [0..<4] ds (shelf s), sock_closed := True\<rparr>))
       \<and> (length ds = 4 \<longrightarrow>
            (\<exists>s'. process_data fpu (s\<lparr>shelf := store_datagrams [0..<4] ds (shelf s)\<rparr>) = Inr s'
               \<and> temp_data fpu (True # oks) (map Datagram ds @ net) s = temp_data fpu oks net s'
               \<and> length (img_pub s') = Suc (length (img_pub s))
               \<and> length (thermal_pub s') = Suc (length (thermal_pub s))
               \<and> sock_closed s' = sock_closed s))"
  using frame_failed [OF assms, of ds fpu oks net] frame_received [OF assms, of ds fpu oks net]
  by blast

theorem receive_error_is_fatal_witness:
  "wf (flat_state 0) \<and> length [[1, 2, 3 :: 8 word]] < 4
   \<and> temp_data exact_fpu [True, True] [Datagram [1, 2, 3], RecvFailed, Datagram []] (flat_state 0)
       = (ReceiveFailed,
          (flat_state 0)\<lparr>shelf := store_datagrams [0..<4] [[1, 2, 3]] (shelf (flat_state 0)),
                          sock_closed := True\<rparr>)
   \<and> length [[1, 2, 3], [], [], [] :: 8 word list] = 4
   \<and> (\<exists>s'. process_data exact_fpu
               ((flat_state 0)\<lparr>shelf := store_datagrams [0..<4] [[1, 2, 3], [], [], []]
                                           (shelf (flat_state 0))\<rparr>) = Inr s'
          \<and> temp_data exact_fpu [True, True]
               [Datagram [1, 2, 3], Datagram [], Datagram [], Datagram [], RecvFailed] (flat_state 0)
             = temp_data exact_fpu [True] [RecvFailed] s'
          \<and> length (img_pub s') = Suc (length (img_pub (flat_state 0))))"
proof -
  have w: "wf (flat_state 0)" by (rule wf_flat_state)
  have l1: "length [[1, 2, 3 :: 8 word]] < 4" and l4: "length [[1, 2, 3], [], [], [] :: 8 word list] = 4"
    by simp_all
  from receive_error_is_fatal [OF w, of "[[1, 2, 3]]" exact_fpu "[True]" "[Datagram []]"] l1
  have a: "temp_data exact_fpu [True, True] [Datagram [1, 2, 3], RecvFailed, Datagram []] (flat_state 0)
       = (ReceiveFailed,
          (flat_state 0)\<lparr>shelf := store_datagrams [0..<4] [[1, 2, 3]] (shelf (flat_state 0)),
                          sock_closed := True\<rparr>)"
    by simp
  from receive_error_is_fatal [OF w, of "[[1, 2, 3], [], [], []]" exact_fpu "[True]" "[RecvFailed]"] l4
  have b: "\<exists>s'. process_data exact_fpu
               ((flat_state 0)\<lparr>shelf := store_datagrams [0..<4] [[1, 2, 3], [], [], []]
                                           (shelf (flat_state 0))\<rparr>) = Inr s'
          \<and> temp_data exact_fpu [True, True]
               [Datagram [1, 2, 3], Datagram [], Datagram [], Datagram [], RecvFailed] (flat_state 0)
             = temp_data exact_fpu [True] [RecvFailed] s'
          \<and> length (img_pub s') = Suc (length (img_pub (flat_state 0)))"
    by simp blast
  show ?thesis
    using w l1 a l4 b by blast
qed

section \<open>Where a sample is stored\<close>

lemma scanned_samples_cong:
  assumes "\<forall>k\<in>set ks. \<forall>i<4920. \<not> i mod 82 < 2 \<longrightarrow> raw_sample b1 k i = raw_sample b2 k i"
  shows "scanned_samples b1 ks = scanned_samples b2 ks"
proof -
  have "scanned_segment b1 k [0..<4920] = scanned_segment b2 k [0..<4920]" if "k \<in> set ks" for k
  proof -
    have "map (raw_sample b1 k) (filter (\<lambda>i. \<not> i mod 82 < 2) [0..<4920])
          = map (raw_sample b2 k) (filter (\<lambda>i. \<not> i mod 82 < 2) [0..<4920])"
      using assms that by (intro map_cong refl) (simp del: upt_rec_numeral)
    then show ?thesis by (simp only: scanned_segment_def)
  qed
  then have "map (\<lambda>k. scanned_segment b1 k [0..<4920]) ks
             = map (\<lambda>k. scanned_segment b2 k [0..<4920]) ks"
    by (intro map_cong refl)
  then show ?thesis
    by (simp only: scanned_samples_def)
qed

lemma decoded_pairs_cong:
  assumes "\<forall>k\<in>set ks. \<forall>i<4920. \<not> i mod 82 < 2 \<longrightarrow> raw_sample b1 k i = raw_sample b2 k i"
  shows "decoded_pairs b1 ks = decoded_pairs b2 ks"
proof -
  have "decoded_positions b1 k [0..<4920] = decoded_positions b2 k [0..<4920]" if "k \<in> set ks" for k
    unfolding decoded_positions_def
    using assms that by (intro takeWhile_cong refl) (simp del: upt_rec_numeral)
  then have "map (\<lambda>k. map (Pair k) (decoded_positions b1 k [0..<4920])) ks
             = map (\<lambda>k. map (Pair k) (decoded_positions b2 k [0..<4920])) ks"
    by (intro map_cong refl) (simp only:)
  then show ?thesis
    by (simp only: decoded_pairs_def)
qed

lemma decoded_pairs_outside_header:
  assumes "p \<in> set (decoded_pairs buffers ks)"
  shows "fst p \<in> set ks \<and> snd p < 4920 \<and> \<not> snd p mod 82 < 2"
  using assms decoded_pairs_mem [of "fst p" "snd p" buffers ks]
    decoded_positions_mem [of "snd p" buffers "fst p" 4920]
  by simp

lemma shelf_intensity [simp]: "intensity fpu (b\<lparr>shelf := buffers\<rparr>) v = intensity fpu b v"
  by (simp add: intensity_def)

lemma calibrated_shelf:
  assumes "\<forall>k\<in>{1..4}. \<forall>i<4920. \<not> i mod 82 < 2 \<longrightarrow> raw_sample buffers k i = raw_sample (shelf s) k i"
  shows "calibrated fpu (s\<lparr>shelf := buffers\<rparr>) = (calibrated fpu s)\<lparr>shelf := buffers\<rparr>"
proof -
  have "scanned_samples buffers [1..<5] = scanned_samples (shelf s) [1..<5]"
    using assms by (intro scanned_samples_cong) auto
  then have "ranged_max (s\<lparr>shelf := buffers\<rparr>) = ranged_max s"
    and "ranged_min (s\<lparr>shelf := buffers\<rparr>) = ranged_min s"
    unfolding ranged_max_def ranged_min_def by (simp_all del: One_nat_def)
  then show ?thesis
    by (simp add: calibrated_def)
qed

lemma header_bytes_ignored:
  assumes "wf s" and "length buffers = 4" and "list_all (\<lambda>seg. length seg = 9840) buffers"
    and same: "\<forall>k\<in>{1..4}. \<forall>i<4920. \<not> i mod 82 < 2
                 \<longrightarrow> raw_sample buffers k i = raw_sample (shelf s) k i"
    and run: "process_data fpu s = Inr s'"
  shows "process_data fpu (s\<lparr>shelf := buffers\<rparr>) = Inr (s'\<lparr>shelf := buffers\<rparr>)"
proof -
  let ?b = "calibrated fpu s"
  have w: "wf (s\<lparr>shelf := buffers\<rparr>)"
    using assms(1-3) by (simp add: wf_def)
  have pairs: "decoded_pairs buffers [1..<5] = decoded_pairs (shelf s) [1..<5]"
    using same by (intro decoded_pairs_cong) auto
  have at: "raw_sample buffers (fst p) (snd p) = raw_sample (shelf s) (fst p) (snd p)"
    if "p \<in> set (decoded_pairs (shelf s) [1..<5])" for p
    using decoded_pairs_outside_header [OF that] same by auto
  have pi: "put_image fpu (?b\<lparr>shelf := buffers\<rparr>) p = put_image fpu ?b p"
    if "p \<in> set (decoded_pairs (shelf s) [1..<5])" for p
    using at [OF that] by (cases p) (simp add: fun_eq_iff)
  have pt: "put_temp fpu (?b\<lparr>shelf := buffers\<rparr>) p = put_temp fpu ?b p"
    if "p \<in> set (decoded_pairs (shelf s) [1..<5])" for p
    using at [OF that] by (cases p) (simp add: fun_eq_iff)
  have fi: "fold (put_image fpu (?b\<lparr>shelf := buffers\<rparr>)) (decoded_pairs (shelf s) [1..<5]) im
            = fold (put_image fpu ?b) (decoded_pairs (shelf s) [1..<5]) im" for im
    by (intro fold_cong refl pi)
  have ft: "fold (put_temp fpu (?b\<lparr>shelf := buffers\<rparr>)) (decoded_pairs (shelf s) [1..<5]) tm
            = fold (put_temp fpu ?b) (decoded_pairs (shelf s) [1..<5]) tm" for tm
    by (intro fold_cong refl pt)
  have s': "s' = publish
                 (?b\<lparr>image_data :=
                       fold (put_image fpu ?b) (decoded_pairs (shelf s) [1..<5]) (image_data s),
                     temperature_data :=
                       fold (put_temp fpu ?b) (decoded_pairs (shelf s) [1..<5]) (temperature_data s),
                     n_zero_value_drop_frame := 0\<rparr>)"
    using run unfolding process_data_pure [OF assms(1)] by simp
  show ?thesis
    unfolding process_data_pure [OF w] calibrated_shelf [OF same] s'
    by (simp add: pairs fi ft publish_def del: One_nat_def)
qed

lemma dented_samples_other:
  assumes "2 \<le> k" and "k \<le> 4"
  shows "raw_sample (dented_frame p) k i = raw_sample (flat_frame 117) k i"
  using assms by (simp add: raw_sample_def dented_frame_def)

lemma placement:
  assumes "wf s" and run: "process_data fpu s = Inr s'"
    and k: "1 \<le> k" "k \<le> 4" and i: "i < 4920" and h: "\<not> i mod 82 < 2"
    and nz: "\<forall>j\<le>i. \<not> j mod 82 < 2 \<longrightarrow> raw_sample (shelf s) k j \<noteq> 0"
  shows "temperature_data s' ! cell k i = f_temp fpu (raw_sample (shelf s) k i)
       \<and> image_data s' ! (cell k i * 3)
           = palette_byte (intensity fpu s' (raw_sample (shelf s) k i)) 2
       \<and> image_data s' ! (cell k i * 3 + 1)
           = palette_byte (intensity fpu s' (raw_sample (shelf s) k i)) 1
       \<and> image_data s' ! (cell k i * 3 + 2)
           = palette_byte (intensity fpu s' (raw_sample (shelf s) k i)) 0"
proof -
  let ?b = "calibrated fpu s"
  let ?ps = "decoded_pairs (shelf s) [1..<5]"
  have h2: "2 \<le> i mod 82" using h by simp
  have s': "s' = publish
                 (?b\<lparr>image_data := fold (put_image fpu ?b) ?ps (image_data s),
                     temperature_data := fold (put_temp fpu ?b) ?ps (temperature_data s),
                     n_zero_value_drop_frame := 0\<rparr>)"
    using run unfolding process_data_pure [OF assms(1)] by simp
  have mem: "(k, i) \<in> set ?ps"
    unfolding decoded_pairs_mem decoded_positions_mem using k i h nz by simp
  have inj: "\<forall>q\<in>set ?ps. cell (fst q) (snd q) = cell k i \<longrightarrow> q = (k, i)"
  proof (intro ballI impI)
    fix q assume q: "q \<in> set ?ps" and c: "cell (fst q) (snd q) = cell k i"
    from decoded_pairs_outside_header [OF q]
    have "1 \<le> fst q" "fst q \<le> 4" "snd q < 4920" "2 \<le> snd q mod 82"
      by simp_all
    from cell_inj [OF this k i h2 c] show "q = (k, i)"
      by (simp add: prod_eq_iff)
  qed
  note ce = cell_eq [OF k i h2]
  have lt: "cell k i < length (temperature_data s)"
    and li: "cell k i * 3 + 2 < length (image_data s)"
    using assms(1) ce(2) by (simp_all add: wf_def)
  have int: "intensity fpu s' v = intensity fpu ?b v" for v
    unfolding s' by (simp add: intensity_def publish_def)
  have t: "temperature_data s' = fold (put_temp fpu ?b) ?ps (temperature_data s)"
    and im: "image_data s' = fold (put_image fpu ?b) ?ps (image_data s)"
    unfolding s' by (simp_all add: publish_def)
  show ?thesis
    unfolding int t im
    using fold_put_temp_nth [OF mem inj lt, of fpu ?b] fold_put_image_nth [OF mem inj li, of fpu ?b]
    by simp
qed

text \<open>
  Claim C6. Let \<^verbatim>\<open>process_data\<close> return \<open>s'\<close> on a well-formed state. For every
  position \<open>i\<close> of a segment 1 to 4 that is outside the headers and that the loop reaches
  (no sample outside the headers up to \<open>i\<close> is zero), the column computed by the source is
  \<open>(i mod 82) - 2 + 80 * ((i mod 164) div 82)\<close>, the row is
  \<open>(i div 82 div 2) + 30 * (iSegment - 1)\<close>, and the returned grids hold at that cell what
  was computed from the sample of position \<open>i\<close>: its temperature, and its three palette
  bytes in the order blue, green, red. The positions with \<open>i mod 82 < 2\<close> are passed over
  entirely: a frame that differs from the given one in samples at these positions only
  leads to the same result.
\<close>

theorem sample_destination:
  assumes "wf s" and "process_data fpu s = Inr s'"
  shows "(\<forall>iSegment\<in>{1..4}. \<forall>i<4920.
            \<not> i mod 82 < 2
            \<and> (\<forall>j\<le>i. \<not> j mod 82 < 2 \<longrightarrow> raw_sample (shelf s) iSegment j \<noteq> 0)
          \<longrightarrow> (let column = int i mod 82 - 2 + 80 * (int i mod 164 div 82);
                    row = int i div 82 div 2 + 30 * (int iSegment - 1);
                    v = raw_sample (shelf s) iSegment i
                in dest_column i = column \<and> dest_row iSegment i = row
                 \<and> temperature_data s' ! nat (row * 160 + column) = f_temp fpu v
                 \<and> image_data s' ! nat ((row * 160 + column) * 3 + 0)
                     = word_of_int (colormap_ironblack ! nat (channel_ofs (intensity fpu s' v) 2))
                 \<and> image_data s' ! nat ((row * 160 + column) * 3 + 1)
                     = word_of_int (colormap_ironblack ! nat (channel_ofs (intensity fpu s' v) 1))
                 \<and> image_data s' ! nat ((row * 160 + column) * 3 + 2)
                     = word_of_int (colormap_ironblack ! nat (channel_ofs (intensity fpu s' v) 0))))
       \<and> (\<forall>buffers. length buffers = 4 \<and> list_all (\<lambda>seg. length seg = 9840) buffers
             \<and> (\<forall>iSegment\<in>{1..4}. \<forall>i<4920. \<not> i mod 82 < 2
                   \<longrightarrow> raw_sample buffers iSegment i = raw_sample (shelf s) iSegment i)
          \<longrightarrow> process_data fpu (s\<lparr>shelf := buffers\<rparr>) = Inr (s'\<lparr>shelf := buffers\<rparr>))"
proof -
  have a: "let column = int i mod 82 - 2 + 80 * (int i mod 164 div 82);
               row = int i div 82 div 2 + 30 * (int k - 1);
               v = raw_sample (shelf s) k i
           in dest_column i = column \<and> dest_row k i = row
            \<and> temperature_data s' ! nat (row * 160 + column) = f_temp fpu v
            \<and> image_data s' ! nat ((row * 160 + column) * 3 + 0)
                = word_of_int (colormap_ironblack ! nat (channel_ofs (intensity fpu s' v) 2))
            \<and> image_data s' ! nat ((row * 160 + column) * 3 + 1)
                = word_of_int (colormap_ironblack ! nat (channel_ofs (intensity fpu s' v) 1))
            \<and> image_data s' ! nat ((row * 160 + column) * 3 + 2)
                = word_of_int (colormap_ironblack ! nat (channel_ofs (intensity fpu s' v) 0))"
    if k: "k \<in> {1..4}" and i: "i < 4920" and h: "\<not> i mod 82 < 2"
      and nz: "\<forall>j\<le>i. \<not> j mod 82 < 2 \<longrightarrow> raw_sample (shelf s) k j \<noteq> 0" for k i
  proof -
    have k': "1 \<le> k" "k \<le> 4" using k by simp_all
    have h2: "2 \<le> i mod 82" using h by simp
    have c: "dest_column i = int i mod 82 - 2 + 80 * (int i mod 164 div 82)"
      and r: "dest_row k i = int i div 82 div 2 + 30 * (int k - 1)"
      by (simp_all add: dest_column_def dest_row_def myImageWidth_def)
    note ce = cell_eq [OF k' i h2]
    have e: "dest_row k i * 160 + dest_column i = int (cell k i)"
      using ce(1) by (simp add: myImageWidth_def)
    have n: "nat (int (cell k i)) = cell k i"
      "nat (int (cell k i) * 3 + 0) = cell k i * 3"
      "nat (int (cell k i) * 3 + 1) = cell k i * 3 + 1"
      "nat (int (cell k i) * 3 + 2) = cell k i * 3 + 2"
      by (simp_all add: nat_add_distrib nat_mult_distrib)
    show ?thesis
      unfolding Let_def c [symmetric] r [symmetric] e n
      using placement [OF assms k' i h nz] by (simp only: palette_byte_def simp_thms)
  qed
  have b: "process_data fpu (s\<lparr>shelf := buffers\<rparr>) = Inr (s'\<lparr>shelf := buffers\<rparr>)"
    if "length buffers = 4" and "list_all (\<lambda>seg. length seg = 9840) buffers"
      and "\<forall>k\<in>{1..4}. \<forall>i<4920. \<not> i mod 82 < 2
             \<longrightarrow> raw_sample buffers k i = raw_sample (shelf s) k i" for buffers
    using header_bytes_ignored [OF assms(1) that assms(2)] .
  show ?thesis
    using a b by blast
qed

theorem sample_destination_witness:
  "wf (flat_state 117)
   \<and> (4::nat) \<in> {1..4} \<and> (4919::nat) < 4920 \<and> \<not> (4919::nat) mod 82 < 2
   \<and> shelf (flat_state 117) = flat_frame 117
   \<and> length (dented_frame 0) = 4 \<and> list_all (\<lambda>seg. length seg = 9840) (dented_frame 0)
   \<and> raw_sample (dented_frame 0) 1 0 \<noteq> raw_sample (shelf (flat_state 117)) 1 0
   \<and> (\<exists>s'. process_data exact_fpu (flat_state 117) = Inr s'
          \<and> dest_column 4919 = 159 \<and> dest_row 4 4919 = 119
          \<and> temperature_data s' ! nat (119 * 160 + 159) = f_temp exact_fpu 30069
          \<and> image_data s' ! nat ((119 * 160 + 159) * 3 + 0)
              = word_of_int (colormap_ironblack ! nat (channel_ofs (intensity exact_fpu s' 30069) 2))
          \<and> image_data s' ! nat ((119 * 160 + 159) * 3 + 1)
              = word_of_int (colormap_ironblack ! nat (channel_ofs (intensity exact_fpu s' 30069) 1))
          \<and> image_data s' ! nat ((119 * 160 + 159) * 3 + 2)
              = word_of_int (colormap_ironblack ! nat (channel_ofs (intensity exact_fpu s' 30069) 0))
          \<and> process_data exact_fpu ((flat_state 117)\<lparr>shelf := dented_frame 0\<rparr>)
              = Inr (s'\<lparr>shelf := dented_frame 0\<rparr>))"
proof -
  let ?s = "flat_state 117"
  have w: "wf ?s" by (rule wf_flat_state)
  obtain s' where run: "process_data exact_fpu ?s = Inr s'"
    using process_data_pure [OF w, of exact_fpu] by blast
  have h: "(4::nat) \<in> {1..4}" "(4919::nat) < 4920" "\<not> (4919::nat) mod 82 < 2"
    by simp_all
  have v: "raw_sample (shelf ?s) 4 j = 30069" if "j < 4920" for j
    using that by (simp add: flat_state_fields raw_sample_flat)
  have nz: "\<forall>j\<le>4919. \<not> j mod 82 < 2 \<longrightarrow> raw_sample (shelf ?s) 4 j \<noteq> 0"
    by (simp add: v)
  have len: "length (dented_frame 0) = 4" "list_all (\<lambda>seg. length seg = 9840) (dented_frame 0)"
    using wf_dented [of 0] by (simp_all add: wf_def dented_fields)
  have same: "\<forall>k\<in>{1..4}. \<forall>i<4920. \<not> i mod 82 < 2
         \<longrightarrow> raw_sample (dented_frame 0) k i = raw_sample (shelf ?s) k i"
  proof (intro ballI allI impI)
    fix k i :: nat assume k: "k \<in> {1..4}" and i: "i < 4920" and nh: "\<not> i mod 82 < 2"
    have i0: "i \<noteq> 0" using nh by (cases "i = 0") simp_all
    show "raw_sample (dented_frame 0) k i = raw_sample (shelf ?s) k i"
    proof (cases "k = 1")
      case True
      then show ?thesis
        using i i0 dented_samples [of 0 i] by (simp add: flat_state_fields raw_sample_flat)
    next
      case False
      then have "2 \<le> k" "k \<le> 4" using k by simp_all
      then show ?thesis
        by (simp add: dented_samples_other flat_state_fields)
    qed
  qed
  have differ: "raw_sample (dented_frame 0) 1 0 \<noteq> raw_sample (shelf ?s) 1 0"
    using dented_samples [of 0 0] by (simp add: flat_state_fields raw_sample_flat)
  have c: "int 4919 mod 82 - 2 + 80 * (int 4919 mod 164 div 82) = 159"
    and r: "int 4919 div 82 div 2 + 30 * (int 4 - 1) = 119"
    by simp_all
  from sample_destination [OF w run] h nz
  have "let column = int 4919 mod 82 - 2 + 80 * (int 4919 mod 164 div 82);
            row = int 4919 div 82 div 2 + 30 * (int 4 - 1);
            v = raw_sample (shelf ?s) 4 4919
        in dest_column 4919 = column \<and> dest_row 4 4919 = row
         \<and> temperature_data s' ! nat (row * 160 + column) = f_temp exact_fpu v
         \<and> image_data s' ! nat ((row * 160 + column) * 3 + 0)
             = word_of_int (colormap_ironblack ! nat (channel_ofs (intensity exact_fpu s' v) 2))
         \<and> image_data s' ! nat ((row * 160 + column) * 3 + 1)
             = word_of_int (colormap_ironblack ! nat (channel_ofs (intensity exact_fpu s' v) 1))
         \<and> image_data s' ! nat ((row * 160 + column) * 3 + 2)
             = word_of_int (colormap_ironblack ! nat (channel_ofs (intensity exact_fpu s' v) 0))"
    by blast
  then have a: "dest_column 4919 = 159 \<and> dest_row 4 4919 = 119
          \<and> temperature_data s' ! nat (119 * 160 + 159) = f_temp exact_fpu 30069
          \<and> image_data s' ! nat ((119 * 160 + 159) * 3 + 0)
              = word_of_int (colormap_ironblack ! nat (channel_ofs (intensity exact_fpu s' 30069) 2))
          \<and> image_data s' ! nat ((119 * 160 + 159) * 3 + 1)
              = word_of_int (colormap_ironblack ! nat (channel_ofs (intensity exact_fpu s' 30069) 1))
          \<and> image_data s' ! nat ((119 * 160 + 159) * 3 + 2)
              = word_of_int (colormap_ironblack ! nat (channel_ofs (intensity exact_fpu s' 30069) 0))"
    unfolding Let_def c r v [of 4919, simplified] .
  from sample_destination [OF w run] len same
  have b: "process_data exact_fpu (?s\<lparr>shelf := dented_frame 0\<rparr>) = Inr (s'\<lparr>shelf := dented_frame 0\<rparr>)"
    by blast
  show ?thesis
    using w h flat_state_fields(7) [of 117] len differ run a b by blast
qed

section \<open>The error of a rounding\<close>

lemma bitlen_powi:
  assumes "0 < a"
  shows "2 powi (bitlen a - 1) \<le> (of_int a :: rat)" and "(of_int a :: rat) < 2 powi bitlen a"
proof -
  from bitlen_bounds [OF assms]
  have lo: "2 ^ nat (bitlen a - 1) \<le> a" and hi: "a < 2 ^ nat (bitlen a)" by simp_all
  have b1: "1 \<le> bitlen a"
    using assms by (simp add: bitlen_alt_def)
  have "(of_int (2 ^ nat (bitlen a - 1)) :: rat) \<le> of_int a"
    using lo by (simp only: of_int_le_iff)
  then show "2 powi (bitlen a - 1) \<le> (of_int a :: rat)"
    using b1 by (simp add: power_int_nonneg_exp)
  have "(of_int a :: rat) < of_int (2 ^ nat (bitlen a))"
    using hi by (simp only: of_int_less_iff)
  then show "(of_int a :: rat) < 2 powi bitlen a"
    using b1 by (simp add: power_int_nonneg_exp)
qed

lemma log2_floor_bounds:
  assumes "0 < q"
  shows "2 powi (log2_floor q) \<le> q" and "q < 2 powi (log2_floor q + 1)"
proof -
  obtain a b where ab: "quotient_of q = (a, b)" by (cases "quotient_of q")
  have b: "0 < b" using ab by (rule quotient_of_denom_pos)
  have q: "q = of_int a / of_int b" using ab by (rule quotient_of_div)
  have a: "0 < a"
    using assms b unfolding q by (simp add: zero_less_divide_iff)
  define e where "e = bitlen a - bitlen b"
  note A = bitlen_powi [OF a] and B = bitlen_powi [OF b]
  have bpos: "(0 :: rat) < of_int b" using b by simp
  have two: "(2 :: rat) \<noteq> 0" by simp
  have up: "q < 2 powi (e + 1)"
  proof -
    have "of_int a < (2 :: rat) powi bitlen a" by (rule A(2))
    also have "\<dots> = 2 powi (e + 1) * 2 powi (bitlen b - 1)"
      unfolding e_def by (simp flip: power_int_add)
    also have "\<dots> \<le> 2 powi (e + 1) * of_int b"
      using B(1) by (intro mult_left_mono) simp_all
    finally show ?thesis
      unfolding q using bpos by (simp add: pos_divide_less_eq)
  qed
  have low: "2 powi (e - 1) < q"
  proof -
    have "(2 :: rat) powi (e - 1) * of_int b < 2 powi (e - 1) * 2 powi bitlen b"
      using B(2) by (intro mult_strict_left_mono) simp_all
    also have "\<dots> = 2 powi (bitlen a - 1)"
      unfolding e_def by (simp flip: power_int_add)
    also have "\<dots> \<le> of_int a" by (rule A(1))
    finally show ?thesis
      unfolding q using bpos by (simp add: pos_less_divide_eq)
  qed
  have lf: "log2_floor q = (if 2 powi e \<le> q then e else e - 1)"
    by (simp add: log2_floor_def ab e_def)
  show "2 powi (log2_floor q) \<le> q"
    unfolding lf using low by (simp add: less_imp_le)
  show "q < 2 powi (log2_floor q + 1)"
    unfolding lf using up by (simp add: not_le)
qed

lemma round_half_even_near: "\<bar>of_int (round_half_even x) - x\<bar> \<le> 1 / 2"
proof -
  have "of_int \<lfloor>x\<rfloor> \<le> x" "x < of_int \<lfloor>x\<rfloor> + 1"
    by linarith+
  then show ?thesis
    unfolding round_half_even_def Let_def by (auto simp: abs_le_iff) 
qed

lemma round_half_even_int [simp]: "round_half_even (of_int n) = n"
  by (simp add: round_half_even_def)

lemma round_to_error:
  assumes "q \<noteq> 0" and "2 powi emin \<le> \<bar>q\<bar>"
  shows "\<bar>round_to p emin q - q\<bar> \<le> \<bar>q\<bar> / 2 ^ p"
proof -
  define e where "e = log2_floor \<bar>q\<bar>"
  have qpos: "0 < \<bar>q\<bar>" using assms(1) by simp
  note lb = log2_floor_bounds [OF qpos, folded e_def]
  have lt: "(2 :: rat) powi emin < 2 powi (e + 1)"
    using assms(2) lb(2) by (rule le_less_trans)
  have "emin < e + 1"
  proof (rule ccontr)
    assume "\<not> emin < e + 1"
    then have "e + 1 \<le> emin" by simp
    then have "(2 :: rat) powi (e + 1) \<le> 2 powi emin"
      by (intro power_int_increasing) simp_all
    with lt show False by simp
  qed
  then have m: "max e emin = e" by simp
  define ulp :: rat where "ulp = 2 powi (e - int p + 1)"
  have ulp: "0 < ulp" by (simp add: ulp_def)
  have r: "round_to p emin q = of_int (round_half_even (q / ulp)) * ulp"
    using assms(1) by (simp add: round_to_def e_def [symmetric] m ulp_def Let_def)
  have "of_int (round_half_even (q / ulp)) * ulp - q
          = (of_int (round_half_even (q / ulp)) - q / ulp) * ulp"
    using ulp by (simp add: left_diff_distrib)
  then have "\<bar>of_int (round_half_even (q / ulp)) * ulp - q\<bar>
          = \<bar>of_int (round_half_even (q / ulp)) - q / ulp\<bar> * ulp"
    using ulp by (simp add: abs_mult)
  also have "\<dots> \<le> 1 / 2 * ulp"
    using ulp round_half_even_near [of "q / ulp"] by (intro mult_right_mono) simp_all
  also have "1 / 2 * ulp = 2 powi e / 2 ^ p"
    unfolding ulp_def by (simp add: power_int_diff power_int_add)
  also have "\<dots> \<le> \<bar>q\<bar> / 2 ^ p"
    using lb(1) by (simp add: divide_right_mono)
  finally show ?thesis
    unfolding r .
qed

section \<open>The temperature\<close>

lemma tiny: "(2 :: rat) powi (- 1022) \<le> 1 / 200" "(2 :: rat) powi (- 126) \<le> 1 / 200"
  by (simp_all add: power_int_minus_divide)

lemma binary64_273: "binary64 273 = 273"
  unfolding binary64_def by code_simp

lemma binary32_0: "binary32 0 = Finite 0"
  by (simp add: binary32_def to_format_def round_to_def)

lemma ieee_temp_bound:
  assumes "v \<noteq> 0"
  shows "\<exists>t. ieee_temp v = Finite t
           \<and> \<bar>t - (of_int (uint v) / 100 - 273)\<bar> \<le> \<bar>of_int (uint v) / 100 - 273\<bar> / 2 ^ 23"
proof (cases "uint v = 27300")
  case True
  then show ?thesis
    by (simp add: ieee_temp_def binary64_273 binary32_0) (simp add: binary64_def round_to_def binary32_0)
next
  case False
  define n where "n = uint v"
  define x :: rat where "x = of_int n / 100"
  define y :: rat where "y = x - 273"
  have "uint v \<noteq> 0"
    using assms by (simp add: word_uint_eq_iff)
  moreover have "0 \<le> uint v" "uint v < 65536"
    using uint_lt2p [of v] by simp_all
  ultimately have n: "1 \<le> n" "n \<le> 65535" "n \<noteq> 27300"
    unfolding n_def using False by linarith+
  have x: "1 / 100 \<le> x" "x \<le> 656"
    using n by (simp_all add: x_def)
  have y100: "y = of_int (n - 27300) / 100"
    by (simp add: y_def x_def field_simps)
  have "1 \<le> \<bar>n - 27300\<bar>" using n(3) by linarith
  then have "(1 :: rat) \<le> \<bar>of_int (n - 27300)\<bar>"
    by (metis of_int_1_le_iff of_int_abs)
  then have ylow: "1 / 100 \<le> \<bar>y\<bar>"
    unfolding y100 by simp
  have yup: "\<bar>y\<bar> \<le> 400"
    using x by (simp add: y_def abs_le_iff)
  define d1 where "d1 = binary64 x"
  define d where "d = d1 - 273"
  define d2 where "d2 = binary64 d"
  define t where "t = round_to 24 (- 126) d2"
  have "\<bar>d1 - x\<bar> \<le> \<bar>x\<bar> / 2 ^ 53"
    unfolding d1_def binary64_def using x tiny(1) by (intro round_to_error) simp_all
  then have e1: "\<bar>d - y\<bar> \<le> 656 / 2 ^ 53"
    using x by (simp add: d_def y_def abs_le_iff)
  have tr1: "\<bar>y\<bar> \<le> \<bar>d\<bar> + \<bar>d - y\<bar>" "\<bar>d\<bar> \<le> \<bar>y\<bar> + \<bar>d - y\<bar>"
    by linarith+
  have tr2: "\<bar>d\<bar> \<le> \<bar>d2\<bar> + \<bar>d2 - d\<bar>" "\<bar>d2\<bar> \<le> \<bar>d\<bar> + \<bar>d2 - d\<bar>"
    by linarith+
  have tr3: "\<bar>t\<bar> \<le> \<bar>d2\<bar> + \<bar>t - d2\<bar>"
    by linarith
  have tr4: "\<bar>t - y\<bar> \<le> \<bar>t - d2\<bar> + \<bar>d2 - d\<bar> + \<bar>d - y\<bar>"
    by linarith
  define A where "A = \<bar>d - y\<bar>"
  define B where "B = \<bar>d2 - d\<bar>"
  define C where "C = \<bar>t - d2\<bar>"
  define Y where "Y = \<bar>y\<bar>"
  define D where "D = \<bar>d\<bar>"
  define D2 where "D2 = \<bar>d2\<bar>"
  note tr = tr1 tr2 tr3 tr4
  have dlow: "1 / 200 \<le> \<bar>d\<bar>"
    using e1 ylow tr1 unfolding A_def [symmetric] Y_def [symmetric] D_def [symmetric]
    by simp
  have e2: "\<bar>d2 - d\<bar> \<le> \<bar>d\<bar> / 2 ^ 53"
    unfolding d2_def binary64_def using dlow tiny(1) by (intro round_to_error) auto
  have d2low: "1 / 200 \<le> \<bar>d2\<bar>"
    using e1 e2 ylow tr1 tr2
    unfolding A_def [symmetric] Y_def [symmetric] D_def [symmetric] B_def [symmetric]
      D2_def [symmetric]
    by simp
  have e3: "\<bar>t - d2\<bar> \<le> \<bar>d2\<bar> / 2 ^ 24"
    unfolding t_def using d2low tiny(2) by (intro round_to_error) auto
  have small: "\<bar>t\<bar> < 2 ^ 128"
    using e1 e2 e3 yup tr
    unfolding A_def [symmetric] Y_def [symmetric] D_def [symmetric] B_def [symmetric]
      D2_def [symmetric] C_def [symmetric]
    by simp
  have fin: "binary32 d2 = Finite t"
    using small by (simp add: binary32_def to_format_def t_def Let_def not_le)
  have "\<bar>t - y\<bar> \<le> \<bar>y\<bar> / 2 ^ 23"
    using e1 e2 e3 ylow tr
    unfolding A_def [symmetric] Y_def [symmetric] D_def [symmetric] B_def [symmetric]
      D2_def [symmetric] C_def [symmetric]
    by simp
  then show ?thesis
    using fin by (simp add: ieee_temp_def d2_def d_def d1_def x_def y_def n_def)
qed

lemma wf_ieee_state: "wf (ieee_state x)"
  unfolding ieee_state_def
  by (rule wf_initial) (simp_all add: flat_frame_def list_all_length)

lemma f_temp_ieee [simp]: "f_temp ieee_fpu = ieee_temp"
  by (simp add: ieee_fpu_def)

lemma ieee_state_shelf: "shelf (ieee_state x) = flat_frame x"
  by (simp add: ieee_state_def initial_def)

lemma ieee_temp_30069: "ieee_temp 30069 = Finite (14517535 / 524288)"
  unfolding ieee_temp_def binary32_def binary64_def by code_simp

text \<open>
  Claim C8, for IEEE 754 arithmetic (\<open>ieee_fpu\<close>), with the floating-point epsilon read
  as the relative error bound \<open>2 ^ -23\<close>, the \<^verbatim>\<open>FLT_EPSILON\<close> of binary32. Let
  \<^verbatim>\<open>process_data\<close> return \<open>s'\<close> on a well-formed state. For every position of a segment
  1 to 4 that is outside the headers and that the loop reaches, with sample \<open>v\<close>, the
  temperature grid of \<open>s'\<close> holds at the cell of the position a finite value \<open>t\<close>, and
  \<open>t\<close> differs from \<open>v / 100 - 273\<close> by at most \<open>2 ^ -23\<close> times the size of
  \<open>v / 100 - 273\<close>. So for the sample 27300 the value stored is exactly 0.
\<close>

theorem temperature_within_epsilon:
  assumes "wf s" and "process_data ieee_fpu s = Inr s'"
    and "iSegment \<in> {1..4}" and "i < 4920" and "\<not> i mod 82 < 2"
    and "\<forall>j\<le>i. \<not> j mod 82 < 2 \<longrightarrow> raw_sample (shelf s) iSegment j \<noteq> 0"
  shows "\<exists>t. temperature_data s' ! nat (dest_row iSegment i * myImageWidth + dest_column i)
               = Finite t
           \<and> \<bar>t - (of_int (uint (raw_sample (shelf s) iSegment i)) / 100 - 273)\<bar>
               \<le> \<bar>of_int (uint (raw_sample (shelf s) iSegment i)) / 100 - 273\<bar> / 2 ^ 23"
proof -
  have k: "1 \<le> iSegment" "iSegment \<le> 4" using assms(3) by simp_all
  have nz: "raw_sample (shelf s) iSegment i \<noteq> 0"
    using assms(5,6) by simp
  have "temperature_data s' ! cell iSegment i = ieee_temp (raw_sample (shelf s) iSegment i)"
    using placement [OF assms(1,2) k assms(4,5,6)] by simp
  then show ?thesis
    using ieee_temp_bound [OF nz] by (simp add: cell_def)
qed

theorem temperature_within_epsilon_witness:
  "wf (ieee_state 117) \<and> (4::nat) \<in> {1..4} \<and> (4919::nat) < 4920 \<and> \<not> (4919::nat) mod 82 < 2
   \<and> raw_sample (shelf (ieee_state 117)) 4 4919 = 30069
   \<and> (\<exists>s'. process_data ieee_fpu (ieee_state 117) = Inr s'
          \<and> temperature_data s' ! nat (dest_row 4 4919 * myImageWidth + dest_column 4919)
              = Finite (14517535 / 524288)
          \<and> \<bar>14517535 / 524288 - (of_int (uint (30069 :: 16 word)) / 100 - 273)\<bar>
              \<le> \<bar>of_int (uint (30069 :: 16 word)) / 100 - 273 :: rat\<bar> / 2 ^ 23)"
proof -
  let ?s = "ieee_state 117"
  have w: "wf ?s" by (rule wf_ieee_state)
  obtain s' where run: "process_data ieee_fpu ?s = Inr s'"
    using process_data_pure [OF w, of ieee_fpu] by blast
  have h: "(4::nat) \<in> {1..4}" "(4919::nat) < 4920" "\<not> (4919::nat) mod 82 < 2"
    by simp_all
  have v: "raw_sample (shelf ?s) 4 j = 30069" if "j < 4920" for j
    using that by (simp add: raw_sample_flat ieee_state_shelf)
  have nz: "\<forall>j\<le>4919. \<not> j mod 82 < 2 \<longrightarrow> raw_sample (shelf ?s) 4 j \<noteq> 0"
    by (simp add: v)
  have k: "(1::nat) \<le> 4" "(4::nat) \<le> 4" by simp_all
  have at: "temperature_data s' ! nat (dest_row 4 4919 * myImageWidth + dest_column 4919)
             = Finite (14517535 / 524288)"
    using placement [OF w run k h(2,3) nz] v [of 4919]
    by (simp add: cell_def ieee_temp_30069)
  from temperature_within_epsilon [OF w run h nz] at v [of 4919]
  have "\<bar>14517535 / 524288 - (of_int (uint (30069 :: 16 word)) / 100 - 273)\<bar>
              \<le> \<bar>of_int (uint (30069 :: 16 word)) / 100 - 273 :: rat\<bar> / 2 ^ 23"
    by auto
  then show ?thesis
    using w h v [of 4919] run at by blast
qed

section \<open>The calibration over the receive loop\<close>





section \<open>The start-up state in IEEE arithmetic\<close>







section \<open>What the scan leaves in the bounds\<close>







section \<open>The scale after the auto-ranging pass\<close>




end
